theory Spec2Isabelle
  imports Main "HOL-Library.Sublist"
begin

section \<open>Data model\<close>

text \<open>
  The crawl-and-staged-refresh pipeline of \<^verbatim>\<open>routes/chat.js\<close> (its last revision, the one
  with \<^verbatim>\<open>scrapeAndSaveSite\<close>). JavaScript strings are \<^typ>\<open>string\<close>, the \<^verbatim>\<open>GitLabData\<close>
  collection is a map from the \<^verbatim>\<open>source\<close> key to a document, dates are natural numbers.
\<close>

text \<open>One element of the \<^verbatim>\<open>pages\<close> array: \<^verbatim>\<open>{ url, title, text }\<close>.\<close>

record page =
  pg_url :: string
  pg_title :: string
  pg_text :: string

text \<open>The object kept, as JSON, in a document's \<^verbatim>\<open>content\<close>: \<^verbatim>\<open>{ title, url, pages }\<close>.\<close>

record site_data =
  sd_title :: string
  sd_url :: string
  pages :: "page list"

text \<open>
  The \<^verbatim>\<open>content\<close> string of a document, by what \<^verbatim>\<open>JSON.parse\<close> makes of it:
  \<open>SiteJson\<close> is the JSON of an object with a \<^verbatim>\<open>pages\<close> array (\<^verbatim>\<open>JSON.stringify\<close> followed
  by \<^verbatim>\<open>JSON.parse\<close> gives the object back); \<open>OtherJson msg\<close> is valid JSON without such an
  array (the \<^verbatim>\<open>last_conversation\<close> record), \<open>msg\<close> being the message of the TypeError that
  reading and spreading its \<^verbatim>\<open>pages\<close> throws; \<open>BadJson msg\<close> is a string on which
  \<^verbatim>\<open>JSON.parse\<close> throws, \<open>msg\<close> being the message of that SyntaxError.
\<close>

datatype content = SiteJson site_data | OtherJson string | BadJson string

record doc =
  content :: content
  scrapedAt :: nat

text \<open>The module-level \<^verbatim>\<open>refreshStatus\<close> object.\<close>

record refresh_status =
  isRefreshing :: bool
  lastRefreshAttempt :: "nat option"
  lastRefreshError :: "string option"
  startTime :: "nat option"

text \<open>
  What \<^verbatim>\<open>axios.get\<close> gives: a response, of which the code reads what cheerio extracts
  (the text of \<^verbatim>\<open>body\<close> after the removal of script, style, nav, footer and header, trimmed,
  with whitespace collapsed; the trimmed text of \<^verbatim>\<open>title\<close> and of the first \<^verbatim>\<open>h1\<close>; the
  \<^verbatim>\<open>href\<close> attributes of the \<^verbatim>\<open>a[href]\<close> elements in document order), or a thrown error
  with its \<^verbatim>\<open>code\<close> and \<^verbatim>\<open>message\<close>. A response whose \<^verbatim>\<open>data\<close> makes
  \<^verbatim>\<open>cheerio.load(response.data)\<close> or the extraction after it throw is \<open>NotHtml msg\<close>, with
  the message of the error: these lines are in no \<^verbatim>\<open>try\<close>, so the error leaves
  \<^verbatim>\<open>scrapeAndSaveSite\<close>.
\<close>

record html_doc =
  bodyText :: string
  titleText :: string
  h1Text :: string
  hrefs :: "string list"

record http_error =
  err_code :: "string option"
  err_message :: "string option"

datatype body = Html html_doc | NotHtml string

datatype http_result = Response body | Failure http_error

text \<open>
  The outside world as oracles. Every call that leaves the process (an HTTP GET, a store
  operation) happens at a tick; \<open>httpGet\<close> and \<open>dbFault\<close> say what the call made at that tick
  meets (\<open>dbFault t = Some msg\<close>: the store operation at tick \<open>t\<close> throws an error with that
  message), \<open>clock\<close> is what \<^verbatim>\<open>new Date()\<close> reads, \<open>resolve\<close> is \<^verbatim>\<open>url.resolve\<close> of Node
  (\<open>None\<close> where it throws).
\<close>

record env =
  httpGet :: "nat \<Rightarrow> string \<Rightarrow> http_result"
  dbFault :: "nat \<Rightarrow> string option"
  clock :: "nat \<Rightarrow> nat"
  resolve :: "string \<Rightarrow> string \<Rightarrow> string option"

text \<open>
  The state of the process and of the store. \<open>fetchLog\<close> is a ghost field: the URLs handed
  to \<^verbatim>\<open>axios.get\<close>, oldest first.
\<close>

record world =
  store :: "string \<Rightarrow> doc option"
  refreshStatus :: refresh_status
  ticks :: nat
  fetchLog :: "string list"

text \<open>How an \<^verbatim>\<open>async\<close> function without result ends: it returns, it throws, or the fuel of
  its loop ran out before it did either.\<close>

datatype outcome = Done | Raised string | OutOfFuel

text \<open>The local variables of \<^verbatim>\<open>scrapeAndSaveSite\<close>.\<close>

record crawl_state =
  visitedUrls :: "string set"
  queue :: "string list"
  currentBatch :: "page list"
  totalPagesSaved :: nat

record refresh_result =
  success :: bool
  message :: string

text \<open>The body of the answer of \<^verbatim>\<open>POST /refresh-data\<close>.\<close>

record refresh_response =
  resp_message :: string
  resp_isRefreshing :: bool
  resp_lastRefreshAttempt :: "nat option"
  resp_startTime :: "nat option"
  resp_timestamp :: nat

section \<open>The store\<close>

definition tick :: "world \<Rightarrow> world" where
  "tick w = w\<lparr>ticks := Suc (ticks w)\<rparr>"

text \<open>\<^verbatim>\<open>GitLabData.findOne({ source })\<close>.\<close>

definition findOne :: "env \<Rightarrow> string \<Rightarrow> world \<Rightarrow> world \<times> (string + doc option)" where
  "findOne e k w =
     (tick w, case dbFault e (ticks w) of Some msg \<Rightarrow> Inl msg | None \<Rightarrow> Inr (store w k))"

text \<open>\<^verbatim>\<open>GitLabData.findOneAndUpdate({ source }, { content, scrapedAt: new Date() }, { upsert: true })\<close>.\<close>

definition findOneAndUpdate :: "env \<Rightarrow> string \<Rightarrow> content \<Rightarrow> world \<Rightarrow> world \<times> outcome" where
  "findOneAndUpdate e k c w =
     (case dbFault e (ticks w) of
        Some msg \<Rightarrow> (tick w, Raised msg)
      | None \<Rightarrow>
          (tick (w\<lparr>store := (store w)(k \<mapsto> \<lparr>content = c, scrapedAt = clock e (ticks w)\<rparr>)\<rparr>),
           Done))"

text \<open>\<^verbatim>\<open>GitLabData.deleteMany({ source: { $in: ks } })\<close>.\<close>

definition deleteMany :: "env \<Rightarrow> string list \<Rightarrow> world \<Rightarrow> world \<times> outcome" where
  "deleteMany e ks w =
     (case dbFault e (ticks w) of
        Some msg \<Rightarrow> (tick w, Raised msg)
      | None \<Rightarrow>
          (tick (w\<lparr>store := (\<lambda>k. if k \<in> set ks then None else store w k)\<rparr>), Done))"

section \<open>Fetching with retries\<close>

text \<open>\<^verbatim>\<open>s.includes(sub)\<close>.\<close>

fun includesStr :: "string \<Rightarrow> string \<Rightarrow> bool" where
  "includesStr [] sub = (sub = [])"
| "includesStr (c # cs) sub = (prefix sub (c # cs) \<or> includesStr cs sub)"

definition isHangup :: "http_error \<Rightarrow> bool" where
  "isHangup x =
     (err_code x = Some ''ECONNRESET'' \<or>
      (case err_message x of None \<Rightarrow> False | Some m \<Rightarrow> includesStr m ''socket hang up''))"

definition isNetwork :: "http_error \<Rightarrow> bool" where
  "isNetwork x =
     (err_code x = Some ''ECONNABORTED'' \<or> err_code x = Some ''ENOTFOUND'' \<or>
      err_code x = Some ''EAI_AGAIN'')"

text \<open>
  The inner loop \<^verbatim>\<open>while (attempt < 3 && !success)\<close>, entered with \<open>attempt\<close> failures so far.
  \<open>Some b\<close> is \<^verbatim>\<open>success\<close> with the response, \<open>None\<close> is \<^verbatim>\<open>!success\<close>. The sleeps take time
  and nothing else, and are left out.
\<close>

function fetchAttempts :: "env \<Rightarrow> string \<Rightarrow> nat \<Rightarrow> world \<Rightarrow> world \<times> body option" where
  "fetchAttempts e u attempt w =
     (if attempt < 3 then
        (case httpGet e (ticks w) u of
           Response b \<Rightarrow> (tick (w\<lparr>fetchLog := fetchLog w @ [u]\<rparr>), Some b)
         | Failure x \<Rightarrow>
             (if (isHangup x \<or> isNetwork x) \<and> attempt + 1 < 3
              then fetchAttempts e u (attempt + 1) (tick (w\<lparr>fetchLog := fetchLog w @ [u]\<rparr>))
              else (tick (w\<lparr>fetchLog := fetchLog w @ [u]\<rparr>), None)))
      else (w, None))"
  by pat_completeness auto
termination
  by (relation "measure (\<lambda>(e, u, attempt, w). 3 - attempt)") auto

section \<open>Extraction\<close>

text \<open>\<^verbatim>\<open>$('title').text().trim() || $('h1').first().text().trim() || 'Untitled'\<close>.\<close>

definition pageTitle :: "html_doc \<Rightarrow> string" where
  "pageTitle d =
     (if titleText d \<noteq> [] then titleText d
      else if h1Text d \<noteq> [] then h1Text d else ''Untitled'')"

text \<open>What one \<^verbatim>\<open>a[href]\<close> element adds to \<^verbatim>\<open>newLinks\<close>, if anything.\<close>

definition linkCandidate :: "env \<Rightarrow> string \<Rightarrow> string \<Rightarrow> string set \<Rightarrow> string \<Rightarrow> string option" where
  "linkCandidate e rootUrl u visited href =
     (if href \<noteq> [] \<and> \<not> prefix ''mailto'' href \<and> \<not> prefix ''#'' href
         \<and> \<not> prefix ''javascript:'' href
      then (case resolve e u href of
              None \<Rightarrow> None
            | Some absoluteUrl \<Rightarrow>
                if prefix rootUrl absoluteUrl \<and> absoluteUrl \<notin> visited
                then Some absoluteUrl else None)
      else None)"

text \<open>The \<^verbatim>\<open>.each\<close> loop that fills \<^verbatim>\<open>newLinks\<close>.\<close>

fun newLinks :: "env \<Rightarrow> string \<Rightarrow> string \<Rightarrow> string set \<Rightarrow> string list \<Rightarrow> string list" where
  "newLinks e rootUrl u visited [] = []"
| "newLinks e rootUrl u visited (href # rest) =
     (case linkCandidate e rootUrl u visited href of
        None \<Rightarrow> newLinks e rootUrl u visited rest
      | Some absoluteUrl \<Rightarrow> absoluteUrl # newLinks e rootUrl u visited rest)"

section \<open>The batched writer\<close>

definition freshData :: "string \<Rightarrow> site_data" where
  "freshData rootUrl = \<lparr>sd_title = [], sd_url = rootUrl, pages = []\<rparr>"

text \<open>
  \<^verbatim>\<open>existingData\<close> in the flush inside the loop: a missing document and a content that does
  not parse both start fresh; the spread of a \<^verbatim>\<open>pages\<close> that is no array throws.
\<close>

definition existingInLoop :: "string \<Rightarrow> doc option \<Rightarrow> string + site_data" where
  "existingInLoop rootUrl existingDoc =
     (case existingDoc of
        None \<Rightarrow> Inr (freshData rootUrl)
      | Some d \<Rightarrow>
          (case content d of
             SiteJson sd \<Rightarrow> Inr sd
           | BadJson msg \<Rightarrow> Inr (freshData rootUrl)
           | OtherJson msg \<Rightarrow> Inl msg))"

text \<open>\<^verbatim>\<open>existingData\<close> in the flush after the loop: there \<^verbatim>\<open>JSON.parse\<close> is not guarded.\<close>

definition existingAtEnd :: "string \<Rightarrow> doc option \<Rightarrow> string + site_data" where
  "existingAtEnd rootUrl existingDoc =
     (case existingDoc of
        None \<Rightarrow> Inr (freshData rootUrl)
      | Some d \<Rightarrow>
          (case content d of
             SiteJson sd \<Rightarrow> Inr sd
           | BadJson msg \<Rightarrow> Inl msg
           | OtherJson msg \<Rightarrow> Inl msg))"

text \<open>
  Either flush: read the document, append \<^verbatim>\<open>currentBatch\<close> to its pages, write it back,
  count the pages, empty the batch. \<open>parse\<close> is one of the two functions above.
\<close>

definition saveBatch ::
  "(doc option \<Rightarrow> string + site_data) \<Rightarrow> env \<Rightarrow> string \<Rightarrow> crawl_state \<Rightarrow> world
     \<Rightarrow> crawl_state \<times> world \<times> outcome" where
  "saveBatch parse e source cs w =
     (case findOne e source w of
        (w1, Inl msg) \<Rightarrow> (cs, w1, Raised msg)
      | (w1, Inr existingDoc) \<Rightarrow>
          (case parse existingDoc of
             Inl msg \<Rightarrow> (cs, w1, Raised msg)
           | Inr existingData \<Rightarrow>
               (case findOneAndUpdate e source
                       (SiteJson (existingData\<lparr>pages := pages existingData @ currentBatch cs\<rparr>)) w1 of
                  (w2, Done) \<Rightarrow>
                    (cs\<lparr>totalPagesSaved := totalPagesSaved cs + length (currentBatch cs),
                        currentBatch := []\<rparr>, w2, Done)
                | (w2, r) \<Rightarrow> (cs, w2, r))))"

section \<open>The frontier crawler\<close>

text \<open>The part of the loop body from \<^verbatim>\<open>if (text.length > 100)\<close> to the end of the flush.\<close>

definition savePage ::
  "env \<Rightarrow> string \<Rightarrow> string \<Rightarrow> nat \<Rightarrow> nat \<Rightarrow> string \<Rightarrow> html_doc \<Rightarrow> crawl_state \<Rightarrow> world
     \<Rightarrow> crawl_state \<times> world \<times> outcome" where
  "savePage e rootUrl source maxPages batchSize u d cs w =
     (if length (bodyText d) > 100 then
        (let cs1 = cs\<lparr>currentBatch := currentBatch cs @
                        [\<lparr>pg_url = u, pg_title = pageTitle d, pg_text = take 5000 (bodyText d)\<rparr>]\<rparr>
         in if length (currentBatch cs1) \<ge> batchSize
               \<or> totalPagesSaved cs1 + length (currentBatch cs1) \<ge> maxPages
            then saveBatch (existingInLoop rootUrl) e source cs1 w
            else (cs1, w, Done))
      else (cs, w, Done))"

text \<open>The part from \<^verbatim>\<open>if (totalPagesSaved < maxPages)\<close> to \<^verbatim>\<open>queue.push(...)\<close>.\<close>

definition enqueueLinks :: "env \<Rightarrow> string \<Rightarrow> nat \<Rightarrow> string \<Rightarrow> html_doc \<Rightarrow> crawl_state \<Rightarrow> crawl_state" where
  "enqueueLinks e rootUrl maxPages u d cs =
     (if totalPagesSaved cs < maxPages
      then cs\<lparr>queue := queue cs @ take 5 (newLinks e rootUrl u (visitedUrls cs) (hrefs d))\<rparr>
      else cs)"

text \<open>
  One pass through the body of \<^verbatim>\<open>while (queue.length > 0 && totalPagesSaved < maxPages)\<close>.
  The loop enters it with a queue that is not empty; on an empty queue the model does nothing.
  A fetch that failed takes the \<^verbatim>\<open>continue\<close>; a response on which \<^verbatim>\<open>cheerio.load\<close> throws
  ends the pass, and with it the crawl, in that error, before anything is saved or enqueued.
\<close>

definition crawlStep ::
  "env \<Rightarrow> string \<Rightarrow> string \<Rightarrow> nat \<Rightarrow> nat \<Rightarrow> crawl_state \<Rightarrow> world
     \<Rightarrow> crawl_state \<times> world \<times> outcome" where
  "crawlStep e rootUrl source maxPages batchSize cs w =
     (case queue cs of
        [] \<Rightarrow> (cs, w, Done)
      | u # rest \<Rightarrow>
          (if u \<in> visitedUrls cs then (cs\<lparr>queue := rest\<rparr>, w, Done)
           else
             (let cs1 = cs\<lparr>queue := rest, visitedUrls := insert u (visitedUrls cs)\<rparr>
              in case fetchAttempts e u 0 w of
                   (w1, None) \<Rightarrow> (cs1, w1, Done)
                 | (w1, Some (NotHtml msg)) \<Rightarrow> (cs1, w1, Raised msg)
                 | (w1, Some (Html d)) \<Rightarrow>
                     (case savePage e rootUrl source maxPages batchSize u d cs1 w1 of
                        (cs2, w2, Done) \<Rightarrow> (enqueueLinks e rootUrl maxPages u d cs2, w2, Done)
                      | (cs2, w2, r) \<Rightarrow> (cs2, w2, r)))))"

text \<open>
  The loop, with fuel: one unit for each pass. Nothing bounds the number of passes (pages
  with little text are never counted and may each link to a new page), so a run that uses up
  its fuel with the loop condition still true ends as \<open>OutOfFuel\<close>, in the state it reached.
\<close>

fun crawlLoop ::
  "nat \<Rightarrow> env \<Rightarrow> string \<Rightarrow> string \<Rightarrow> nat \<Rightarrow> nat \<Rightarrow> crawl_state \<Rightarrow> world
     \<Rightarrow> crawl_state \<times> world \<times> outcome" where
  "crawlLoop 0 e rootUrl source maxPages batchSize cs w =
     (if queue cs \<noteq> [] \<and> totalPagesSaved cs < maxPages then (cs, w, OutOfFuel)
      else (cs, w, Done))"
| "crawlLoop (Suc n) e rootUrl source maxPages batchSize cs w =
     (if queue cs \<noteq> [] \<and> totalPagesSaved cs < maxPages then
        (case crawlStep e rootUrl source maxPages batchSize cs w of
           (cs1, w1, Done) \<Rightarrow> crawlLoop n e rootUrl source maxPages batchSize cs1 w1
         | (cs1, w1, r) \<Rightarrow> (cs1, w1, r))
      else (cs, w, Done))"

definition crawlInit :: "string \<Rightarrow> crawl_state" where
  "crawlInit rootUrl =
     \<lparr>visitedUrls = {}, queue = [rootUrl], currentBatch = [], totalPagesSaved = 0\<rparr>"

text \<open>The flush after the loop: \<^verbatim>\<open>if (currentBatch.length > 0) { ... }\<close>.\<close>

definition finalFlush :: "env \<Rightarrow> string \<Rightarrow> string \<Rightarrow> crawl_state \<Rightarrow> world \<Rightarrow> crawl_state \<times> world \<times> outcome" where
  "finalFlush e rootUrl source cs w =
     (if currentBatch cs \<noteq> [] then saveBatch (existingAtEnd rootUrl) e source cs w
      else (cs, w, Done))"

text \<open>\<^verbatim>\<open>scrapeAndSaveSite(rootUrl, source, maxPages, batchSize)\<close>, with the final local state.\<close>

definition scrapeAndSaveSiteState ::
  "nat \<Rightarrow> env \<Rightarrow> string \<Rightarrow> string \<Rightarrow> nat \<Rightarrow> nat \<Rightarrow> world \<Rightarrow> crawl_state \<times> world \<times> outcome" where
  "scrapeAndSaveSiteState fuel e rootUrl source maxPages batchSize w =
     (case findOneAndUpdate e source (SiteJson (freshData rootUrl)) w of
        (w1, Done) \<Rightarrow>
          (case crawlLoop fuel e rootUrl source maxPages batchSize (crawlInit rootUrl) w1 of
             (cs, w2, Done) \<Rightarrow> finalFlush e rootUrl source cs w2
           | (cs, w2, r) \<Rightarrow> (cs, w2, r))
      | (w1, r) \<Rightarrow> (crawlInit rootUrl, w1, r))"

definition scrapeAndSaveSite ::
  "nat \<Rightarrow> env \<Rightarrow> string \<Rightarrow> string \<Rightarrow> nat \<Rightarrow> nat \<Rightarrow> world \<Rightarrow> world \<times> outcome" where
  "scrapeAndSaveSite fuel e rootUrl source maxPages batchSize w =
     snd (scrapeAndSaveSiteState fuel e rootUrl source maxPages batchSize w)"

section \<open>The staged swap\<close>

definition handbookUrl :: string where
  "handbookUrl = ''https://handbook.gitlab.com''"

definition directionUrl :: string where
  "directionUrl = ''https://about.gitlab.com/direction/''"

definition stagingKeys :: "string list" where
  "stagingKeys = [''handbook_staging'', ''direction_staging'']"

text \<open>\<^verbatim>\<open>mongoose.startSession()\<close>.\<close>

definition startSession :: "env \<Rightarrow> world \<Rightarrow> world \<times> outcome" where
  "startSession e w =
     (tick w, case dbFault e (ticks w) of Some msg \<Rightarrow> Raised msg | None \<Rightarrow> Done)"

text \<open>One of the two \<^verbatim>\<open>if (staging) { findOneAndUpdate(production, ...) }\<close>.\<close>

definition copyToProduction :: "env \<Rightarrow> string \<Rightarrow> doc option \<Rightarrow> world \<Rightarrow> world \<times> outcome" where
  "copyToProduction e k staging w =
     (case staging of
        None \<Rightarrow> (w, Done)
      | Some d \<Rightarrow> findOneAndUpdate e k (content d) w)"

text \<open>The callback given to \<^verbatim>\<open>session.withTransaction\<close>.\<close>

definition swapCallback :: "env \<Rightarrow> world \<Rightarrow> world \<times> outcome" where
  "swapCallback e w =
     (case findOne e ''handbook_staging'' w of
        (w1, Inl msg) \<Rightarrow> (w1, Raised msg)
      | (w1, Inr handbookStaging) \<Rightarrow>
          (case findOne e ''direction_staging'' w1 of
             (w2, Inl msg) \<Rightarrow> (w2, Raised msg)
           | (w2, Inr directionStaging) \<Rightarrow>
               (case copyToProduction e ''handbook'' handbookStaging w2 of
                  (w3, Done) \<Rightarrow>
                    (case copyToProduction e ''direction'' directionStaging w3 of
                       (w4, Done) \<Rightarrow> deleteMany e stagingKeys w4
                     | (w4, r) \<Rightarrow> (w4, r))
                | (w3, r) \<Rightarrow> (w3, r))))"

text \<open>
  \<^verbatim>\<open>session.withTransaction(callback)\<close>: the writes of the callback take effect when the
  commit, a store operation of its own, succeeds; when the callback or the commit throws,
  the store is what it was when the transaction began. A failed transaction is not tried
  again here.
\<close>

definition withTransaction :: "env \<Rightarrow> world \<Rightarrow> world \<times> outcome" where
  "withTransaction e w =
     (case swapCallback e w of
        (w1, Done) \<Rightarrow>
          (case dbFault e (ticks w1) of
             None \<Rightarrow> (tick w1, Done)
           | Some msg \<Rightarrow> (tick (w1\<lparr>store := store w\<rparr>), Raised msg))
      | (w1, r) \<Rightarrow> (w1\<lparr>store := store w\<rparr>, r))"

text \<open>The \<^verbatim>\<open>try\<close> block of \<^verbatim>\<open>scrapeGitLabData\<close>; \<^verbatim>\<open>endSession\<close> does not throw.\<close>

definition scrapeGitLabDataTry :: "nat \<Rightarrow> env \<Rightarrow> world \<Rightarrow> world \<times> outcome" where
  "scrapeGitLabDataTry fuel e w =
     (case scrapeAndSaveSite fuel e handbookUrl ''handbook_staging'' 50 10 w of
        (w1, Done) \<Rightarrow>
          (case scrapeAndSaveSite fuel e directionUrl ''direction_staging'' 50 10 w1 of
             (w2, Done) \<Rightarrow>
               (case startSession e w2 of
                  (w3, Done) \<Rightarrow> withTransaction e w3
                | (w3, r) \<Rightarrow> (w3, r))
           | (w2, r) \<Rightarrow> (w2, r))
      | (w1, r) \<Rightarrow> (w1, r))"

text \<open>\<^verbatim>\<open>scrapeGitLabData\<close>: the \<^verbatim>\<open>catch\<close> deletes the staging documents, swallows the error
  of that deletion, and throws the first error again.\<close>

definition scrapeGitLabData :: "nat \<Rightarrow> env \<Rightarrow> world \<Rightarrow> world \<times> outcome" where
  "scrapeGitLabData fuel e w =
     (case scrapeGitLabDataTry fuel e w of
        (w1, Raised msg) \<Rightarrow> (fst (deleteMany e stagingKeys w1), Raised msg)
      | (w1, r) \<Rightarrow> (w1, r))"

section \<open>The refresh orchestrator\<close>

text \<open>\<^verbatim>\<open>backgroundRefresh\<close>; \<open>None\<close> when the refresh has not returned within its fuel (then
  the \<^verbatim>\<open>finally\<close> has not run either).\<close>

definition backgroundRefresh :: "nat \<Rightarrow> env \<Rightarrow> world \<Rightarrow> world \<times> refresh_result option" where
  "backgroundRefresh fuel e w =
     (if isRefreshing (refreshStatus w)
      then (w, Some \<lparr>success = False, message = ''Refresh already in progress''\<rparr>)
      else
        (case scrapeGitLabData fuel e
                (w\<lparr>refreshStatus :=
                     \<lparr>isRefreshing = True, lastRefreshAttempt = Some (clock e (ticks w)),
                      lastRefreshError = None, startTime = Some (clock e (ticks w))\<rparr>\<rparr>) of
           (w1, Done) \<Rightarrow>
             (w1\<lparr>refreshStatus := (refreshStatus w1)\<lparr>isRefreshing := False\<rparr>\<rparr>,
              Some \<lparr>success = True, message = ''Refresh completed successfully''\<rparr>)
         | (w1, Raised msg) \<Rightarrow>
             (w1\<lparr>refreshStatus :=
                   (refreshStatus w1)\<lparr>lastRefreshError := Some msg, isRefreshing := False\<rparr>\<rparr>,
              Some \<lparr>success = False, message = ''Refresh failed: '' @ msg\<rparr>)
         | (w1, OutOfFuel) \<Rightarrow> (w1, None)))"

text \<open>The handler of \<^verbatim>\<open>POST /refresh-data\<close>: it awaits \<^verbatim>\<open>backgroundRefresh()\<close>, then answers.\<close>

definition refreshDataRoute :: "nat \<Rightarrow> env \<Rightarrow> world \<Rightarrow> world \<times> refresh_response option" where
  "refreshDataRoute fuel e w =
     (case backgroundRefresh fuel e w of
        (w1, None) \<Rightarrow> (w1, None)
      | (w1, Some result) \<Rightarrow>
          (w1, Some \<lparr>resp_message =
                       (if success result then ''GitLab data refresh started in background''
                        else message result),
                     resp_isRefreshing = isRefreshing (refreshStatus w1),
                     resp_lastRefreshAttempt = lastRefreshAttempt (refreshStatus w1),
                     resp_startTime = startTime (refreshStatus w1),
                     resp_timestamp = clock e (ticks w1)\<rparr>))"

section \<open>Auxiliary definitions\<close>

text \<open>The world after one call of \<^verbatim>\<open>axios.get(u)\<close>.\<close>

definition logged :: "string \<Rightarrow> world \<Rightarrow> world" where
  "logged u w = tick (w\<lparr>fetchLog := fetchLog w @ [u]\<rparr>)"

text \<open>The world \<open>w\<close> with every record whose key is not in \<open>K\<close> replaced by what \<open>h\<close> holds.\<close>

definition outside :: "string set \<Rightarrow> (string \<Rightarrow> doc option) \<Rightarrow> world \<Rightarrow> world" where
  "outside K h w = w\<lparr>store := override_on h (store w) K\<rparr>"

text \<open>The four keys a refresh works on.\<close>

definition refreshKeys :: "string set" where
  "refreshKeys = {''handbook'', ''direction'', ''handbook_staging'', ''direction_staging''}"

text \<open>The pages of the snapshot kept under a key, when the record there is a site snapshot.\<close>

definition stagedPages :: "string \<Rightarrow> world \<Rightarrow> page list option" where
  "stagedPages source w =
     (case store w source of
        None \<Rightarrow> None
      | Some d \<Rightarrow> (case content d of SiteJson sd \<Rightarrow> Some (pages sd) | OtherJson s \<Rightarrow> None
                    | BadJson s \<Rightarrow> None))"

text \<open>What holds of the crawl of one source each time the loop condition is tested;
  \<open>log0\<close> is the fetch log when the crawl began.\<close>

definition crawlInv :: "string \<Rightarrow> string \<Rightarrow> nat \<Rightarrow> string list \<Rightarrow> crawl_state \<Rightarrow> world \<Rightarrow> bool" where
  "crawlInv rootUrl source maxPages log0 cs w \<longleftrightarrow>
     (\<exists>ps. stagedPages source w = Some ps \<and> length ps = totalPagesSaved cs
        \<and> (\<forall>p\<in>set ps. prefix rootUrl (pg_url p)))
     \<and> (\<forall>p\<in>set (currentBatch cs). prefix rootUrl (pg_url p))
     \<and> (\<forall>u\<in>set (queue cs). prefix rootUrl u)
     \<and> (\<forall>u\<in>visitedUrls cs. prefix rootUrl u)
     \<and> (\<exists>new. fetchLog w = log0 @ new \<and> (\<forall>u\<in>set new. prefix rootUrl u))
     \<and> totalPagesSaved cs + length (currentBatch cs) \<le> maxPages
     \<and> (currentBatch cs \<noteq> [] \<longrightarrow> totalPagesSaved cs + length (currentBatch cs) < maxPages)"

text \<open>What holds of it in every state it reaches, also one in which a flush has thrown.\<close>

definition crawlSafe :: "string \<Rightarrow> string \<Rightarrow> nat \<Rightarrow> string list \<Rightarrow> crawl_state \<Rightarrow> world \<Rightarrow> bool" where
  "crawlSafe rootUrl source maxPages log0 cs w \<longleftrightarrow>
     (\<exists>ps. stagedPages source w = Some ps \<and> length ps \<le> maxPages
        \<and> (\<forall>p\<in>set ps. prefix rootUrl (pg_url p)))
     \<and> (\<forall>u\<in>set (queue cs). prefix rootUrl u)
     \<and> (\<forall>u\<in>visitedUrls cs. prefix rootUrl u)
     \<and> (\<exists>new. fetchLog w = log0 @ new \<and> (\<forall>u\<in>set new. prefix rootUrl u))"

section \<open>Concrete environments and states\<close>

text \<open>
  The inputs of the witnesses and counterexamples. In all of them the clock reads 100 plus
  the tick, and every link is an absolute URL without dot segments, which \<^verbatim>\<open>url.resolve\<close>
  returns as it is.
\<close>

text \<open>An error the code retries on, and one it does not.\<close>

definition connReset :: http_error where
  "connReset = \<lparr>err_code = Some ''ECONNRESET'', err_message = Some ''read ECONNRESET''\<rparr>"

definition status404 :: http_error where
  "status404 = \<lparr>err_code = Some ''ERR_BAD_REQUEST'',
                 err_message = Some ''Request failed with status code 404''\<rparr>"

text \<open>The errors the claim about retries names, as axios and Node report them: a hang up,
  the request timeout of axios, the two DNS failures, and the timeout of the socket.\<close>

definition hangUp :: http_error where
  "hangUp = \<lparr>err_code = Some ''ECONNRESET'', err_message = Some ''socket hang up''\<rparr>"

definition requestTimeout :: http_error where
  "requestTimeout = \<lparr>err_code = Some ''ECONNABORTED'',
                      err_message = Some ''timeout of 15000ms exceeded''\<rparr>"

definition dnsNotFound :: http_error where
  "dnsNotFound = \<lparr>err_code = Some ''ENOTFOUND'',
                   err_message = Some ''getaddrinfo ENOTFOUND handbook.gitlab.com''\<rparr>"

definition dnsTryAgain :: http_error where
  "dnsTryAgain = \<lparr>err_code = Some ''EAI_AGAIN'',
                   err_message = Some ''getaddrinfo EAI_AGAIN handbook.gitlab.com''\<rparr>"

definition socketTimeout :: http_error where
  "socketTimeout = \<lparr>err_code = Some ''ETIMEDOUT'',
                     err_message = Some ''connect ETIMEDOUT 35.185.44.232:443''\<rparr>"

text \<open>A body text of 101 characters, one more than a page needs to be saved.\<close>

definition longText :: string where
  "longText = replicate 101 CHR ''x''"

text \<open>A store that holds a production snapshot of one page and a conversation; no refresh is running.\<close>

definition oldPage :: page where
  "oldPage = \<lparr>pg_url = ''https://handbook.gitlab.com/a'', pg_title = ''A'', pg_text = ''old''\<rparr>"

definition world0 :: world where
  "world0 = \<lparr>store = [''handbook'' \<mapsto> \<lparr>content = SiteJson \<lparr>sd_title = [], sd_url = handbookUrl, pages = [oldPage]\<rparr>, scrapedAt = 7\<rparr>,
                      ''last_conversation'' \<mapsto> \<lparr>content = OtherJson ''existingData.pages is not iterable'', scrapedAt = 9\<rparr>],
     refreshStatus = \<lparr>isRefreshing = False, lastRefreshAttempt = None, lastRefreshError = None, startTime = None\<rparr>,
     ticks = 0, fetchLog = []\<rparr>"

text \<open>Every fetch is reset; the store works.\<close>

definition envDown :: env where
  "envDown = \<lparr>httpGet = (\<lambda>t u. Failure connReset), dbFault = (\<lambda>t. None), clock = (\<lambda>t. 100 + t),
     resolve = (\<lambda>u href. Some href)\<rparr>"

text \<open>Every fetch throws the given error; the store works.\<close>

definition envFailing :: "http_error \<Rightarrow> env" where
  "envFailing x = \<lparr>httpGet = (\<lambda>t u. Failure x), dbFault = (\<lambda>t. None), clock = (\<lambda>t. 100 + t),
     resolve = (\<lambda>u href. Some href)\<rparr>"

text \<open>The root of the handbook is reset; every other fetch is answered with a body on which
  \<^verbatim>\<open>cheerio.load\<close> throws an error with the given message; the store works.\<close>

definition envNotHtml :: "string \<Rightarrow> env" where
  "envNotHtml msg = \<lparr>httpGet = (\<lambda>t u. if u = handbookUrl then Failure connReset
                                    else Response (NotHtml msg)),
     dbFault = (\<lambda>t. None), clock = (\<lambda>t. 100 + t), resolve = (\<lambda>u href. Some href)\<rparr>"

text \<open>The store is down; the store takes one write and is lost; the store fails once, at its third operation.\<close>

definition envStoreDown :: env where
  "envStoreDown = \<lparr>httpGet = (\<lambda>t u. Failure connReset), dbFault = (\<lambda>t. Some ''store unavailable''),
     clock = (\<lambda>t. 100 + t), resolve = (\<lambda>u href. Some href)\<rparr>"

definition envStoreLost :: env where
  "envStoreLost = \<lparr>httpGet = (\<lambda>t u. Failure status404),
     dbFault = (\<lambda>t. if t = 0 then None else Some ''store unavailable''),
     clock = (\<lambda>t. 100 + t), resolve = (\<lambda>u href. Some href)\<rparr>"

definition envFlaky :: env where
  "envFlaky = \<lparr>httpGet = (\<lambda>t u. Failure status404),
     dbFault = (\<lambda>t. if t = 2 then Some ''write failed'' else None),
     clock = (\<lambda>t. 100 + t), resolve = (\<lambda>u href. Some href)\<rparr>"

text \<open>A site whose every page links to two pages of the site and to another domain.\<close>

definition sitePage :: html_doc where
  "sitePage = \<lparr>bodyText = longText, titleText = ''T'', h1Text = [],
     hrefs = [''https://handbook.gitlab.com/a'', ''https://other.example/x'',
              ''https://handbook.gitlab.com/b'']\<rparr>"

definition envSite :: env where
  "envSite = \<lparr>httpGet = (\<lambda>t u. Response (Html sitePage)), dbFault = (\<lambda>t. None), clock = (\<lambda>t. 100 + t),
     resolve = (\<lambda>u href. Some href)\<rparr>"

text \<open>A site whose every page has five characters of text and one link.\<close>

definition thinPage :: html_doc where
  "thinPage = \<lparr>bodyText = ''moved'', titleText = ''T'', h1Text = [],
     hrefs = [''https://handbook.gitlab.com/a'']\<rparr>"

definition envThin :: env where
  "envThin = \<lparr>httpGet = (\<lambda>t u. Response (Html thinPage)), dbFault = (\<lambda>t. None), clock = (\<lambda>t. 100 + t),
     resolve = (\<lambda>u href. Some href)\<rparr>"

text \<open>A root that links to \<^verbatim>\<open>/a\<close> and \<^verbatim>\<open>/b\<close>; every other page links to \<^verbatim>\<open>/b\<close>.\<close>

definition envDup :: env where
  "envDup = \<lparr>httpGet = (\<lambda>t u. if u = handbookUrl
        then Response (Html \<lparr>bodyText = longText, titleText = ''Root'', h1Text = [],
               hrefs = [''https://handbook.gitlab.com/a'', ''https://handbook.gitlab.com/b'']\<rparr>)
        else Response (Html \<lparr>bodyText = longText, titleText = ''A'', h1Text = [],
               hrefs = [''https://handbook.gitlab.com/b'']\<rparr>)),
     dbFault = (\<lambda>t. None), clock = (\<lambda>t. 100 + t), resolve = (\<lambda>u href. Some href)\<rparr>"

text \<open>A site whose every page carries ten links, seven of them to pages of the site.\<close>

definition manyLinksPage :: html_doc where
  "manyLinksPage = \<lparr>bodyText = longText, titleText = ''Index'', h1Text = [],
     hrefs = [''mailto:x@gitlab.com'', ''https://handbook.gitlab.com/1'',
              ''https://handbook.gitlab.com/2'', ''https://other.example/x'',
              ''https://handbook.gitlab.com/3'', ''https://handbook.gitlab.com/4'',
              ''#top'', ''https://handbook.gitlab.com/5'',
              ''https://handbook.gitlab.com/6'', ''https://handbook.gitlab.com/7'']\<rparr>"

definition envMany :: env where
  "envMany = \<lparr>httpGet = (\<lambda>t u. Response (Html manyLinksPage)), dbFault = (\<lambda>t. None),
     clock = (\<lambda>t. 100 + t), resolve = (\<lambda>u href. Some href)\<rparr>"

section \<open>Fetching: the retry loop\<close>

declare fetchAttempts.simps [simp del]

lemmas refresh_eval =
  backgroundRefresh_def scrapeGitLabData_def scrapeGitLabDataTry_def scrapeAndSaveSite_def
  scrapeAndSaveSiteState_def crawlInit_def crawlStep_def savePage_def saveBatch_def
  enqueueLinks_def linkCandidate_def pageTitle_def existingInLoop_def existingAtEnd_def
  finalFlush_def fetchAttempts.simps isHangup_def isNetwork_def findOne_def findOneAndUpdate_def
  deleteMany_def tick_def startSession_def withTransaction_def swapCallback_def
  copyToProduction_def stagingKeys_def handbookUrl_def directionUrl_def freshData_def

lemma fetchAttempts_retry:
  assumes "httpGet e (ticks w) u = Failure x" "isHangup x \<or> isNetwork x" "Suc attempt < 3"
  shows "fetchAttempts e u attempt w = fetchAttempts e u (Suc attempt) (logged u w)"
  using assms by (subst fetchAttempts.simps) (simp add: logged_def)

lemma fetchAttempts_give_up:
  assumes "httpGet e (ticks w) u = Failure x" "attempt < 3"
    "\<not> (isHangup x \<or> isNetwork x) \<or> \<not> Suc attempt < 3"
  shows "fetchAttempts e u attempt w = (logged u w, None)"
  using assms by (subst fetchAttempts.simps) (auto simp add: logged_def)

lemma fetchAttempts_transient:
  assumes "\<forall>t. \<exists>x. httpGet e t u = Failure x \<and> (isHangup x \<or> isNetwork x)"
  shows "fetchAttempts e u 0 w = (w\<lparr>ticks := ticks w + 3, fetchLog := fetchLog w @ [u, u, u]\<rparr>, None)"
proof -
  obtain x0 where x0: "httpGet e (ticks w) u = Failure x0" "isHangup x0 \<or> isNetwork x0"
    using assms by blast
  obtain x1 where x1: "httpGet e (ticks (logged u w)) u = Failure x1" "isHangup x1 \<or> isNetwork x1"
    using assms by blast
  obtain x2 where x2: "httpGet e (ticks (logged u (logged u w))) u = Failure x2"
    using assms by blast
  have "fetchAttempts e u 0 w = fetchAttempts e u (Suc 0) (logged u w)"
    using fetchAttempts_retry [OF x0, of 0] by simp
  also have "\<dots> = fetchAttempts e u (Suc (Suc 0)) (logged u (logged u w))"
    using fetchAttempts_retry [OF x1, of "Suc 0"] by simp
  also have "\<dots> = (logged u (logged u (logged u w)), None)"
    using fetchAttempts_give_up [OF x2, of "Suc (Suc 0)"] by simp
  finally show ?thesis by (simp add: logged_def tick_def)
qed

section \<open>Claims about the orchestrator\<close>

text \<open>
  C3. A trigger that arrives while \<^verbatim>\<open>refreshStatus.isRefreshing\<close> is true is rejected at
  once, whatever the fuel and the environment: \<^verbatim>\<open>backgroundRefresh\<close> returns the
  already-in-progress result and the whole state (store, \<^verbatim>\<open>isRefreshing\<close>,
  \<^verbatim>\<open>lastRefreshAttempt\<close>, \<^verbatim>\<open>lastRefreshError\<close>, the ticks and the fetch log, so no call
  left the process) is the one it was called in.
\<close>

theorem already_running:
  assumes "isRefreshing (refreshStatus w)"
  shows "backgroundRefresh fuel e w
           = (w, Some \<lparr>success = False, message = ''Refresh already in progress''\<rparr>)"
  using assms by (simp add: backgroundRefresh_def)

theorem already_running_witness:
  "isRefreshing (refreshStatus (world0\<lparr>refreshStatus := (refreshStatus world0)\<lparr>isRefreshing := True\<rparr>\<rparr>))
   \<and> backgroundRefresh 0 envDown (world0\<lparr>refreshStatus := (refreshStatus world0)\<lparr>isRefreshing := True\<rparr>\<rparr>)
       = (world0\<lparr>refreshStatus := (refreshStatus world0)\<lparr>isRefreshing := True\<rparr>\<rparr>,
          Some \<lparr>success = False, message = ''Refresh already in progress''\<rparr>)"
  using already_running [of "world0\<lparr>refreshStatus := (refreshStatus world0)\<lparr>isRefreshing := True\<rparr>\<rparr>" 0 envDown]
  by simp

section \<open>Claims about one pass of the crawl loop\<close>

text \<open>
  C4, as the code has it. When the loop takes from the queue a URL it has not visited, and
  every fetch of that URL throws an error with code \<^verbatim>\<open>ECONNRESET\<close> (connection reset), with
  \<^verbatim>\<open>socket hang up\<close> in its message, with code \<^verbatim>\<open>ECONNABORTED\<close> (the request timeout of
  axios), or with code \<^verbatim>\<open>ENOTFOUND\<close> or \<^verbatim>\<open>EAI_AGAIN\<close> (DNS failure), the pass makes exactly
  three calls of \<^verbatim>\<open>axios.get\<close> for it, saves nothing, throws nothing, and the loop goes on
  with the rest of the queue. When the first fetch throws an error that is none of these
  (a 404, a timeout with code \<^verbatim>\<open>ETIMEDOUT\<close>), the pass makes that one call only and the
  loop goes on in the same way.
\<close>

theorem retry_budget:
  assumes "queue cs = u # rest" and "u \<notin> visitedUrls cs" and "totalPagesSaved cs < maxPages"
  shows "((\<forall>t. \<exists>x. httpGet e t u = Failure x
              \<and> (err_code x = Some ''ECONNRESET''
                 \<or> (\<exists>m. err_message x = Some m \<and> includesStr m ''socket hang up'')
                 \<or> err_code x = Some ''ECONNABORTED''
                 \<or> err_code x = Some ''ENOTFOUND''
                 \<or> err_code x = Some ''EAI_AGAIN'')) \<longrightarrow>
            crawlLoop (Suc n) e rootUrl source maxPages batchSize cs w
              = crawlLoop n e rootUrl source maxPages batchSize
                  (cs\<lparr>queue := rest, visitedUrls := insert u (visitedUrls cs)\<rparr>)
                  (w\<lparr>ticks := ticks w + 3, fetchLog := fetchLog w @ [u, u, u]\<rparr>))
       \<and> ((\<exists>x. httpGet e (ticks w) u = Failure x
              \<and> err_code x \<noteq> Some ''ECONNRESET''
              \<and> (\<forall>m. err_message x = Some m \<longrightarrow> \<not> includesStr m ''socket hang up'')
              \<and> err_code x \<noteq> Some ''ECONNABORTED''
              \<and> err_code x \<noteq> Some ''ENOTFOUND''
              \<and> err_code x \<noteq> Some ''EAI_AGAIN'') \<longrightarrow>
            crawlLoop (Suc n) e rootUrl source maxPages batchSize cs w
              = crawlLoop n e rootUrl source maxPages batchSize
                  (cs\<lparr>queue := rest, visitedUrls := insert u (visitedUrls cs)\<rparr>)
                  (w\<lparr>ticks := ticks w + 1, fetchLog := fetchLog w @ [u]\<rparr>))"
proof (rule conjI; rule impI)
  assume "\<forall>t. \<exists>x. httpGet e t u = Failure x
              \<and> (err_code x = Some ''ECONNRESET''
                 \<or> (\<exists>m. err_message x = Some m \<and> includesStr m ''socket hang up'')
                 \<or> err_code x = Some ''ECONNABORTED''
                 \<or> err_code x = Some ''ENOTFOUND''
                 \<or> err_code x = Some ''EAI_AGAIN'')"
  then have "\<forall>t. \<exists>x. httpGet e t u = Failure x \<and> (isHangup x \<or> isNetwork x)"
    by (fastforce simp add: isHangup_def isNetwork_def)
  then have "fetchAttempts e u 0 w
      = (w\<lparr>ticks := ticks w + 3, fetchLog := fetchLog w @ [u, u, u]\<rparr>, None)"
    by (rule fetchAttempts_transient)
  with assms show "crawlLoop (Suc n) e rootUrl source maxPages batchSize cs w
              = crawlLoop n e rootUrl source maxPages batchSize
                  (cs\<lparr>queue := rest, visitedUrls := insert u (visitedUrls cs)\<rparr>)
                  (w\<lparr>ticks := ticks w + 3, fetchLog := fetchLog w @ [u, u, u]\<rparr>)"
    by (simp add: crawlStep_def)
next
  assume "\<exists>x. httpGet e (ticks w) u = Failure x
              \<and> err_code x \<noteq> Some ''ECONNRESET''
              \<and> (\<forall>m. err_message x = Some m \<longrightarrow> \<not> includesStr m ''socket hang up'')
              \<and> err_code x \<noteq> Some ''ECONNABORTED''
              \<and> err_code x \<noteq> Some ''ENOTFOUND''
              \<and> err_code x \<noteq> Some ''EAI_AGAIN''"
  then obtain x where "httpGet e (ticks w) u = Failure x" "\<not> (isHangup x \<or> isNetwork x)"
    by (auto simp add: isHangup_def isNetwork_def split: option.splits)
  then have "fetchAttempts e u 0 w = (logged u w, None)"
    using fetchAttempts_give_up [of e w u x 0] by simp
  moreover have "logged u w = w\<lparr>ticks := ticks w + 1, fetchLog := fetchLog w @ [u]\<rparr>"
    by (simp add: logged_def tick_def)
  ultimately have "fetchAttempts e u 0 w
      = (w\<lparr>ticks := ticks w + 1, fetchLog := fetchLog w @ [u]\<rparr>, None)"
    by simp
  with assms show "crawlLoop (Suc n) e rootUrl source maxPages batchSize cs w
              = crawlLoop n e rootUrl source maxPages batchSize
                  (cs\<lparr>queue := rest, visitedUrls := insert u (visitedUrls cs)\<rparr>)
                  (w\<lparr>ticks := ticks w + 1, fetchLog := fetchLog w @ [u]\<rparr>)"
    by (simp add: crawlStep_def)
qed

text \<open>
  C4 as stated fails for a timeout: when every fetch of the root ends in the socket timeout
  \<^verbatim>\<open>ETIMEDOUT\<close>, which is not among the codes the code retries on, the crawler makes one
  attempt, not three.
\<close>

theorem retry_budget_counterexample:
  "crawlLoop (Suc 0) (envFailing socketTimeout) handbookUrl ''handbook_staging'' 50 10
      (crawlInit handbookUrl) world0
     = (\<lparr>visitedUrls = {handbookUrl}, queue = [], currentBatch = [], totalPagesSaved = 0\<rparr>,
        world0\<lparr>ticks := 1, fetchLog := [handbookUrl]\<rparr>, Done)"
  by (simp add: world0_def envFailing_def socketTimeout_def refresh_eval)

text \<open>
  The amended C4 at each kind of error: three attempts for a connection reset, a hang up,
  a request timeout and the two DNS failures, one for a 404 and for a socket timeout.
\<close>

theorem retry_budget_witness:
  "fetchLog (fst (snd (crawlLoop (Suc 0) (envFailing connReset) handbookUrl ''handbook_staging'' 50 10
      (crawlInit handbookUrl) world0))) = [handbookUrl, handbookUrl, handbookUrl]
   \<and> fetchLog (fst (snd (crawlLoop (Suc 0) (envFailing hangUp) handbookUrl ''handbook_staging'' 50 10
      (crawlInit handbookUrl) world0))) = [handbookUrl, handbookUrl, handbookUrl]
   \<and> fetchLog (fst (snd (crawlLoop (Suc 0) (envFailing requestTimeout) handbookUrl ''handbook_staging'' 50 10
      (crawlInit handbookUrl) world0))) = [handbookUrl, handbookUrl, handbookUrl]
   \<and> fetchLog (fst (snd (crawlLoop (Suc 0) (envFailing dnsNotFound) handbookUrl ''handbook_staging'' 50 10
      (crawlInit handbookUrl) world0))) = [handbookUrl, handbookUrl, handbookUrl]
   \<and> fetchLog (fst (snd (crawlLoop (Suc 0) (envFailing dnsTryAgain) handbookUrl ''handbook_staging'' 50 10
      (crawlInit handbookUrl) world0))) = [handbookUrl, handbookUrl, handbookUrl]
   \<and> fetchLog (fst (snd (crawlLoop (Suc 0) (envFailing status404) handbookUrl ''handbook_staging'' 50 10
      (crawlInit handbookUrl) world0))) = [handbookUrl]
   \<and> fetchLog (fst (snd (crawlLoop (Suc 0) (envFailing socketTimeout) handbookUrl ''handbook_staging'' 50 10
      (crawlInit handbookUrl) world0))) = [handbookUrl]
   \<and> snd (snd (crawlLoop (Suc 0) (envFailing requestTimeout) handbookUrl ''handbook_staging'' 50 10
      (crawlInit handbookUrl) world0)) = Done"
proof -
  have init: "queue (crawlInit handbookUrl) = handbookUrl # []"
    "handbookUrl \<notin> visitedUrls (crawlInit handbookUrl)"
    "totalPagesSaved (crawlInit handbookUrl) < 50"
    by (simp_all add: crawlInit_def)
  note rb = retry_budget [OF init, where n = 0 and rootUrl = handbookUrl
      and source = "''handbook_staging''" and batchSize = 10 and w = world0]
  have "crawlLoop (Suc 0) (envFailing connReset) handbookUrl ''handbook_staging'' 50 10
          (crawlInit handbookUrl) world0
        = crawlLoop 0 (envFailing connReset) handbookUrl ''handbook_staging'' 50 10
            ((crawlInit handbookUrl)\<lparr>queue := [], visitedUrls := insert handbookUrl
                (visitedUrls (crawlInit handbookUrl))\<rparr>)
            (world0\<lparr>ticks := ticks world0 + 3,
                    fetchLog := fetchLog world0 @ [handbookUrl, handbookUrl, handbookUrl]\<rparr>)"
    using rb [where e = "envFailing connReset"] by (simp add: envFailing_def connReset_def)
  moreover have "crawlLoop (Suc 0) (envFailing hangUp) handbookUrl ''handbook_staging'' 50 10
          (crawlInit handbookUrl) world0
        = crawlLoop 0 (envFailing hangUp) handbookUrl ''handbook_staging'' 50 10
            ((crawlInit handbookUrl)\<lparr>queue := [], visitedUrls := insert handbookUrl
                (visitedUrls (crawlInit handbookUrl))\<rparr>)
            (world0\<lparr>ticks := ticks world0 + 3,
                    fetchLog := fetchLog world0 @ [handbookUrl, handbookUrl, handbookUrl]\<rparr>)"
    using rb [where e = "envFailing hangUp"] by (simp add: envFailing_def hangUp_def)
  moreover have "crawlLoop (Suc 0) (envFailing requestTimeout) handbookUrl ''handbook_staging'' 50 10
          (crawlInit handbookUrl) world0
        = crawlLoop 0 (envFailing requestTimeout) handbookUrl ''handbook_staging'' 50 10
            ((crawlInit handbookUrl)\<lparr>queue := [], visitedUrls := insert handbookUrl
                (visitedUrls (crawlInit handbookUrl))\<rparr>)
            (world0\<lparr>ticks := ticks world0 + 3,
                    fetchLog := fetchLog world0 @ [handbookUrl, handbookUrl, handbookUrl]\<rparr>)"
    using rb [where e = "envFailing requestTimeout"]
    by (simp add: envFailing_def requestTimeout_def)
  moreover have "crawlLoop (Suc 0) (envFailing dnsNotFound) handbookUrl ''handbook_staging'' 50 10
          (crawlInit handbookUrl) world0
        = crawlLoop 0 (envFailing dnsNotFound) handbookUrl ''handbook_staging'' 50 10
            ((crawlInit handbookUrl)\<lparr>queue := [], visitedUrls := insert handbookUrl
                (visitedUrls (crawlInit handbookUrl))\<rparr>)
            (world0\<lparr>ticks := ticks world0 + 3,
                    fetchLog := fetchLog world0 @ [handbookUrl, handbookUrl, handbookUrl]\<rparr>)"
    using rb [where e = "envFailing dnsNotFound"] by (simp add: envFailing_def dnsNotFound_def)
  moreover have "crawlLoop (Suc 0) (envFailing dnsTryAgain) handbookUrl ''handbook_staging'' 50 10
          (crawlInit handbookUrl) world0
        = crawlLoop 0 (envFailing dnsTryAgain) handbookUrl ''handbook_staging'' 50 10
            ((crawlInit handbookUrl)\<lparr>queue := [], visitedUrls := insert handbookUrl
                (visitedUrls (crawlInit handbookUrl))\<rparr>)
            (world0\<lparr>ticks := ticks world0 + 3,
                    fetchLog := fetchLog world0 @ [handbookUrl, handbookUrl, handbookUrl]\<rparr>)"
    using rb [where e = "envFailing dnsTryAgain"] by (simp add: envFailing_def dnsTryAgain_def)
  moreover have "crawlLoop (Suc 0) (envFailing status404) handbookUrl ''handbook_staging'' 50 10
          (crawlInit handbookUrl) world0
        = crawlLoop 0 (envFailing status404) handbookUrl ''handbook_staging'' 50 10
            ((crawlInit handbookUrl)\<lparr>queue := [], visitedUrls := insert handbookUrl
                (visitedUrls (crawlInit handbookUrl))\<rparr>)
            (world0\<lparr>ticks := ticks world0 + 1, fetchLog := fetchLog world0 @ [handbookUrl]\<rparr>)"
    using rb [where e = "envFailing status404"] by (simp add: envFailing_def status404_def)
  moreover have "crawlLoop (Suc 0) (envFailing socketTimeout) handbookUrl ''handbook_staging'' 50 10
          (crawlInit handbookUrl) world0
        = crawlLoop 0 (envFailing socketTimeout) handbookUrl ''handbook_staging'' 50 10
            ((crawlInit handbookUrl)\<lparr>queue := [], visitedUrls := insert handbookUrl
                (visitedUrls (crawlInit handbookUrl))\<rparr>)
            (world0\<lparr>ticks := ticks world0 + 1, fetchLog := fetchLog world0 @ [handbookUrl]\<rparr>)"
    using rb [where e = "envFailing socketTimeout"]
    by (simp add: envFailing_def socketTimeout_def)
  ultimately show ?thesis
    by (simp add: world0_def)
qed

section \<open>The store outside a set of keys\<close>

lemma outside_fields [simp]:
  "ticks (outside K h w) = ticks w"
  "fetchLog (outside K h w) = fetchLog w"
  "refreshStatus (outside K h w) = refreshStatus w"
  "store (outside K h w) k = (if k \<in> K then store w k else h k)"
  by (simp_all add: outside_def override_on_def)

lemma outside_same: "outside K (store w) w = w"
  by (simp add: outside_def override_on_def)

lemma outside_tick: "tick (outside K h w) = outside K h (tick w)"
  by (simp add: outside_def tick_def)

lemma outside_logged: "logged u (outside K h w) = outside K h (logged u w)"
  by (simp add: outside_def logged_def tick_def)

lemma outside_refreshStatus:
  "(outside K h w)\<lparr>refreshStatus := r\<rparr> = outside K h (w\<lparr>refreshStatus := r\<rparr>)"
  by (simp add: outside_def)

lemma outside_restore:
  "(outside K h w1)\<lparr>store := store (outside K h w)\<rparr> = outside K h (w1\<lparr>store := store w\<rparr>)"
  by (simp add: outside_def)

lemma outside_upsert:
  "k \<in> K \<Longrightarrow> (outside K h w)\<lparr>store := (store (outside K h w))(k \<mapsto> d)\<rparr>
     = outside K h (w\<lparr>store := (store w)(k \<mapsto> d)\<rparr>)"
  by (auto simp add: outside_def fun_eq_iff override_on_def)

lemma outside_delete:
  "set ks \<subseteq> K \<Longrightarrow>
   (outside K h w)\<lparr>store := (\<lambda>k. if k \<in> set ks then None else store (outside K h w) k)\<rparr>
     = outside K h (w\<lparr>store := (\<lambda>k. if k \<in> set ks then None else store w k)\<rparr>)"
proof -
  assume sub: "set ks \<subseteq> K"
  have "(\<lambda>k. if k \<in> set ks then None else store (outside K h w) k)
          = override_on h (\<lambda>k. if k \<in> set ks then None else store w k) K"
    using sub by (auto simp add: fun_eq_iff override_on_def)
  then show ?thesis by (simp add: outside_def)
qed

lemma findOne_outside:
  "k \<in> K \<Longrightarrow> findOne e k (outside K h w) = (outside K h (fst (findOne e k w)), snd (findOne e k w))"
  by (simp add: findOne_def outside_tick split: option.splits)

lemma findOneAndUpdate_outside:
  "k \<in> K \<Longrightarrow> findOneAndUpdate e k c (outside K h w)
     = (outside K h (fst (findOneAndUpdate e k c w)), snd (findOneAndUpdate e k c w))"
proof (cases "dbFault e (ticks w)")
  case None
  assume "k \<in> K"
  from outside_upsert [OF this] None show ?thesis
    by (simp add: findOneAndUpdate_def outside_tick [symmetric])
next
  case (Some msg)
  then show ?thesis by (simp add: findOneAndUpdate_def outside_tick)
qed

lemma deleteMany_outside:
  "set ks \<subseteq> K \<Longrightarrow> deleteMany e ks (outside K h w)
     = (outside K h (fst (deleteMany e ks w)), snd (deleteMany e ks w))"
proof (cases "dbFault e (ticks w)")
  case None
  assume "set ks \<subseteq> K"
  from outside_delete [OF this] None show ?thesis
    by (simp add: deleteMany_def outside_tick [symmetric])
next
  case (Some msg)
  then show ?thesis by (simp add: deleteMany_def outside_tick)
qed

lemma fetchAttempts_outside:
  "fetchAttempts e u attempt (outside K h w)
     = (outside K h (fst (fetchAttempts e u attempt w)), snd (fetchAttempts e u attempt w))"
proof (induction e u attempt w rule: fetchAttempts.induct)
  case (1 e u attempt w)
  show ?case
  proof (cases "attempt < 3")
    case False
    then show ?thesis by (simp add: fetchAttempts.simps)
  next
    case True
    show ?thesis
    proof (cases "httpGet e (ticks w) u")
      case (Response d)
      have "fetchAttempts e u attempt (outside K h w) = (logged u (outside K h w), Some d)"
        using True Response by (simp add: fetchAttempts.simps [of e u attempt] logged_def)
      moreover have "fetchAttempts e u attempt w = (logged u w, Some d)"
        using True Response by (simp add: fetchAttempts.simps [of e u attempt] logged_def)
      ultimately show ?thesis by (simp add: outside_logged)
    next
      case (Failure x)
      show ?thesis
      proof (cases "(isHangup x \<or> isNetwork x) \<and> attempt + 1 < 3")
        case retry: True
        have "fetchAttempts e u attempt (outside K h w)
                = fetchAttempts e u (attempt + 1) (logged u (outside K h w))"
          using True Failure retry
          by (simp add: fetchAttempts.simps [of e u attempt] logged_def)
        moreover have "fetchAttempts e u attempt w = fetchAttempts e u (attempt + 1) (logged u w)"
          using True Failure retry
          by (simp add: fetchAttempts.simps [of e u attempt] logged_def)
        moreover have "fetchAttempts e u (attempt + 1) (outside K h (logged u w))
            = (outside K h (fst (fetchAttempts e u (attempt + 1) (logged u w))),
               snd (fetchAttempts e u (attempt + 1) (logged u w)))"
          using "1.IH" [OF True Failure retry] by (simp add: logged_def)
        ultimately show ?thesis by (simp add: outside_logged)
      next
        case False
        have "fetchAttempts e u attempt (outside K h w) = (logged u (outside K h w), None)"
          using True Failure False by (auto simp add: fetchAttempts.simps [of e u attempt] logged_def)
        moreover have "fetchAttempts e u attempt w = (logged u w, None)"
          using True Failure False by (auto simp add: fetchAttempts.simps [of e u attempt] logged_def)
        ultimately show ?thesis by (simp add: outside_logged)
      qed
    qed
  qed
qed

lemma saveBatch_outside:
  "source \<in> K \<Longrightarrow> saveBatch parse e source cs (outside K h w)
     = (fst (saveBatch parse e source cs w),
        outside K h (fst (snd (saveBatch parse e source cs w))),
        snd (snd (saveBatch parse e source cs w)))"
  by (simp add: saveBatch_def findOne_outside findOneAndUpdate_outside split_beta
      split: sum.splits outcome.splits)

lemma savePage_outside:
  "source \<in> K \<Longrightarrow> savePage e rootUrl source maxPages batchSize u d cs (outside K h w)
     = (fst (savePage e rootUrl source maxPages batchSize u d cs w),
        outside K h (fst (snd (savePage e rootUrl source maxPages batchSize u d cs w))),
        snd (snd (savePage e rootUrl source maxPages batchSize u d cs w)))"
  by (simp add: savePage_def saveBatch_outside Let_def)

lemma crawlStep_outside:
  "source \<in> K \<Longrightarrow> crawlStep e rootUrl source maxPages batchSize cs (outside K h w)
     = (fst (crawlStep e rootUrl source maxPages batchSize cs w),
        outside K h (fst (snd (crawlStep e rootUrl source maxPages batchSize cs w))),
        snd (snd (crawlStep e rootUrl source maxPages batchSize cs w)))"
  by (simp add: crawlStep_def savePage_outside fetchAttempts_outside Let_def split_beta
      split: list.splits option.splits body.splits outcome.splits)

lemma crawlLoop_outside:
  "source \<in> K \<Longrightarrow> crawlLoop n e rootUrl source maxPages batchSize cs (outside K h w)
     = (fst (crawlLoop n e rootUrl source maxPages batchSize cs w),
        outside K h (fst (snd (crawlLoop n e rootUrl source maxPages batchSize cs w))),
        snd (snd (crawlLoop n e rootUrl source maxPages batchSize cs w)))"
proof (induction n arbitrary: cs w)
  case 0
  then show ?case by simp
next
  case (Suc n)
  then show ?case
    by (simp add: crawlStep_outside split_beta split: outcome.splits)
qed

lemma finalFlush_outside:
  "source \<in> K \<Longrightarrow> finalFlush e rootUrl source cs (outside K h w)
     = (fst (finalFlush e rootUrl source cs w),
        outside K h (fst (snd (finalFlush e rootUrl source cs w))),
        snd (snd (finalFlush e rootUrl source cs w)))"
  by (simp add: finalFlush_def saveBatch_outside)

lemma scrapeAndSaveSiteState_outside:
  "source \<in> K \<Longrightarrow> scrapeAndSaveSiteState fuel e rootUrl source maxPages batchSize (outside K h w)
     = (fst (scrapeAndSaveSiteState fuel e rootUrl source maxPages batchSize w),
        outside K h (fst (snd (scrapeAndSaveSiteState fuel e rootUrl source maxPages batchSize w))),
        snd (snd (scrapeAndSaveSiteState fuel e rootUrl source maxPages batchSize w)))"
  by (simp add: scrapeAndSaveSiteState_def findOneAndUpdate_outside crawlLoop_outside
      finalFlush_outside split_beta split: outcome.splits)

lemma scrapeAndSaveSite_outside:
  "source \<in> K \<Longrightarrow> scrapeAndSaveSite fuel e rootUrl source maxPages batchSize (outside K h w)
     = (outside K h (fst (scrapeAndSaveSite fuel e rootUrl source maxPages batchSize w)),
        snd (scrapeAndSaveSite fuel e rootUrl source maxPages batchSize w))"
  by (simp add: scrapeAndSaveSite_def scrapeAndSaveSiteState_outside)

lemma startSession_outside:
  "startSession e (outside K h w) = (outside K h (fst (startSession e w)), snd (startSession e w))"
  by (simp add: startSession_def outside_tick)

lemma copyToProduction_outside:
  "k \<in> K \<Longrightarrow> copyToProduction e k staging (outside K h w)
     = (outside K h (fst (copyToProduction e k staging w)), snd (copyToProduction e k staging w))"
  by (simp add: copyToProduction_def findOneAndUpdate_outside split: option.splits)

lemma swapCallback_outside:
  "refreshKeys \<subseteq> K \<Longrightarrow> swapCallback e (outside K h w)
     = (outside K h (fst (swapCallback e w)), snd (swapCallback e w))"
  by (simp add: swapCallback_def findOne_outside copyToProduction_outside deleteMany_outside
      stagingKeys_def refreshKeys_def split_beta split: sum.splits outcome.splits)

lemma withTransaction_outside:
  "refreshKeys \<subseteq> K \<Longrightarrow> withTransaction e (outside K h w)
     = (outside K h (fst (withTransaction e w)), snd (withTransaction e w))"
  by (simp add: withTransaction_def swapCallback_outside outside_restore outside_tick split_beta
      del: outside_fields(4) split: outcome.splits option.splits)

lemma scrapeGitLabDataTry_outside:
  "refreshKeys \<subseteq> K \<Longrightarrow> scrapeGitLabDataTry fuel e (outside K h w)
     = (outside K h (fst (scrapeGitLabDataTry fuel e w)), snd (scrapeGitLabDataTry fuel e w))"
  by (simp add: scrapeGitLabDataTry_def scrapeAndSaveSite_outside startSession_outside
      withTransaction_outside refreshKeys_def split_beta split: outcome.splits)

lemma scrapeGitLabData_outside:
  "refreshKeys \<subseteq> K \<Longrightarrow> scrapeGitLabData fuel e (outside K h w)
     = (outside K h (fst (scrapeGitLabData fuel e w)), snd (scrapeGitLabData fuel e w))"
  by (simp add: scrapeGitLabData_def scrapeGitLabDataTry_outside deleteMany_outside
      stagingKeys_def refreshKeys_def split_beta split: outcome.splits)

lemma backgroundRefresh_outside:
  "refreshKeys \<subseteq> K \<Longrightarrow> backgroundRefresh fuel e (outside K h w)
     = (outside K h (fst (backgroundRefresh fuel e w)), snd (backgroundRefresh fuel e w))"
  by (simp add: backgroundRefresh_def scrapeGitLabData_outside outside_refreshStatus split_beta
      split: outcome.splits)

section \<open>Claims about the staged swap\<close>

lemma scrapeAndSaveSite_frame:
  assumes "k \<noteq> source"
  shows "store (fst (scrapeAndSaveSite fuel e rootUrl source maxPages batchSize w)) k = store w k"
proof -
  have "store (fst (scrapeAndSaveSite fuel e rootUrl source maxPages batchSize
                      (outside {source} (store w) w))) k = store w k"
    using assms by (simp add: scrapeAndSaveSite_outside)
  then show ?thesis by (simp only: outside_same)
qed

lemma startSession_store: "store (fst (startSession e w)) = store w"
  by (simp add: startSession_def tick_def)

lemma withTransaction_failed:
  "snd (withTransaction e w) \<noteq> Done \<Longrightarrow> store (fst (withTransaction e w)) = store w"
  by (simp add: withTransaction_def tick_def split_beta split: outcome.splits option.splits)

lemma scrapeGitLabDataTry_failed:
  assumes "snd (scrapeGitLabDataTry fuel e w) \<noteq> Done" and "k = ''handbook'' \<or> k = ''direction''"
  shows "store (fst (scrapeGitLabDataTry fuel e w)) k = store w k"
proof -
  have k: "k \<noteq> ''handbook_staging''" "k \<noteq> ''direction_staging''"
    using assms(2) by auto
  show ?thesis
    using assms(1) k
    by (auto simp add: scrapeGitLabDataTry_def split_beta scrapeAndSaveSite_frame
        startSession_store withTransaction_failed split: outcome.splits)
qed

lemma deleteMany_store:
  "store (fst (deleteMany e ks w)) k
     = (if dbFault e (ticks w) = None \<and> k \<in> set ks then None else store w k)"
  by (simp add: deleteMany_def tick_def split: option.splits)

lemma deleteMany_ticks: "ticks (fst (deleteMany e ks w)) = Suc (ticks w)"
  by (simp add: deleteMany_def tick_def split: option.splits)

text \<open>
  C1, as the code has it. When \<^verbatim>\<open>scrapeGitLabData\<close> does not complete (a step of a crawl or
  of the promotion throws, or the refresh is still running when the fuel ends), the
  production records \<^verbatim>\<open>handbook\<close> and \<^verbatim>\<open>direction\<close> are exactly what they were before it
  began. When it throws, its last store operation is the deletion of the two staging
  records; if that deletion does not fail itself, no staging record is left.
\<close>

theorem failed_refresh_keeps_production:
  assumes "scrapeGitLabData fuel e w = (w', r)" and "r \<noteq> Done"
  shows "store w' ''handbook'' = store w ''handbook''
       \<and> store w' ''direction'' = store w ''direction''
       \<and> ((\<exists>msg. r = Raised msg) \<and> dbFault e (ticks w' - 1) = None \<longrightarrow>
            store w' ''handbook_staging'' = None \<and> store w' ''direction_staging'' = None)"
proof -
  obtain w1 r1 where tr: "scrapeGitLabDataTry fuel e w = (w1, r1)"
    by (cases "scrapeGitLabDataTry fuel e w")
  have r1: "r1 \<noteq> Done"
    using assms tr by (auto simp add: scrapeGitLabData_def split: outcome.splits)
  have prod: "store w1 ''handbook'' = store w ''handbook''"
             "store w1 ''direction'' = store w ''direction''"
    using scrapeGitLabDataTry_failed [of fuel e w] tr r1 by simp_all
  show ?thesis
  proof (cases r1)
    case Done
    with r1 show ?thesis by simp
  next
    case OutOfFuel
    with assms tr prod show ?thesis by (simp add: scrapeGitLabData_def)
  next
    case (Raised msg)
    with assms tr have w': "w' = fst (deleteMany e stagingKeys w1)"
      by (simp add: scrapeGitLabData_def)
    show ?thesis
      using prod by (simp add: w' deleteMany_store deleteMany_ticks stagingKeys_def)
  qed
qed

text \<open>
  C1 as stated fails where the cleanup fails too: the store takes the first write and then
  becomes unavailable, the refresh throws, the deletion in the \<^verbatim>\<open>catch\<close> throws and is only
  logged, and the \<^verbatim>\<open>handbook_staging\<close> record written at tick 0 is still there.
\<close>

theorem failed_refresh_counterexample:
  "snd (scrapeGitLabData 1 envStoreLost world0) = Raised ''store unavailable''
   \<and> store (fst (scrapeGitLabData 1 envStoreLost world0)) ''handbook_staging''
       = Some \<lparr>content = SiteJson \<lparr>sd_title = [], sd_url = handbookUrl, pages = []\<rparr>, scrapedAt = 100\<rparr>"
  by (simp add: world0_def envStoreLost_def status404_def refresh_eval)

theorem failed_refresh_keeps_production_witness:
  "snd (scrapeGitLabData 1 envFlaky world0) = Raised ''write failed''
   \<and> dbFault envFlaky (ticks (fst (scrapeGitLabData 1 envFlaky world0)) - 1) = None
   \<and> store (fst (scrapeGitLabData 1 envFlaky world0)) ''handbook'' = store world0 ''handbook''
   \<and> store (fst (scrapeGitLabData 1 envFlaky world0)) ''direction'' = store world0 ''direction''
   \<and> store (fst (scrapeGitLabData 1 envFlaky world0)) ''handbook_staging'' = None
   \<and> store (fst (scrapeGitLabData 1 envFlaky world0)) ''direction_staging'' = None"
proof -
  have r: "snd (scrapeGitLabData 1 envFlaky world0) = Raised ''write failed''"
    by (simp add: world0_def envFlaky_def status404_def refresh_eval)
  have t: "ticks (fst (scrapeGitLabData 1 envFlaky world0)) = 4"
    by (simp add: world0_def envFlaky_def status404_def refresh_eval)
  show ?thesis
    using failed_refresh_keeps_production [of 1 envFlaky world0
        "fst (scrapeGitLabData 1 envFlaky world0)" "snd (scrapeGitLabData 1 envFlaky world0)"] r t
    by (simp add: envFlaky_def)
qed

text \<open>
  C10. A refresh (\<^verbatim>\<open>backgroundRefresh\<close>, \<^verbatim>\<open>scrapeGitLabData\<close>), however it ends, neither reads
  nor writes a record whose key is not \<^verbatim>\<open>handbook\<close>, \<^verbatim>\<open>direction\<close>, \<^verbatim>\<open>handbook_staging\<close> or
  \<^verbatim>\<open>direction_staging\<close>: replacing all other records by anything else changes neither its
  result nor what it leaves under the four keys, and every other record (the
  \<^verbatim>\<open>last_conversation\<close> record among them) is after the refresh what it was before.
\<close>

theorem refresh_frame:
  "backgroundRefresh fuel e (outside refreshKeys h w)
     = (outside refreshKeys h (fst (backgroundRefresh fuel e w)), snd (backgroundRefresh fuel e w))
   \<and> scrapeGitLabData fuel e (outside refreshKeys h w)
     = (outside refreshKeys h (fst (scrapeGitLabData fuel e w)), snd (scrapeGitLabData fuel e w))
   \<and> (\<forall>k. k \<notin> refreshKeys \<longrightarrow>
         store (fst (backgroundRefresh fuel e w)) k = store w k
       \<and> store (fst (scrapeGitLabData fuel e w)) k = store w k)"
proof (intro conjI allI impI)
  show "backgroundRefresh fuel e (outside refreshKeys h w)
     = (outside refreshKeys h (fst (backgroundRefresh fuel e w)), snd (backgroundRefresh fuel e w))"
    by (simp add: backgroundRefresh_outside)
  show "scrapeGitLabData fuel e (outside refreshKeys h w)
     = (outside refreshKeys h (fst (scrapeGitLabData fuel e w)), snd (scrapeGitLabData fuel e w))"
    by (simp add: scrapeGitLabData_outside)
next
  fix k assume k: "k \<notin> refreshKeys"
  have "store (fst (backgroundRefresh fuel e (outside refreshKeys (store w) w))) k = store w k"
    using k by (simp add: backgroundRefresh_outside)
  then show "store (fst (backgroundRefresh fuel e w)) k = store w k"
    by (simp only: outside_same)
  have "store (fst (scrapeGitLabData fuel e (outside refreshKeys (store w) w))) k = store w k"
    using k by (simp add: scrapeGitLabData_outside)
  then show "store (fst (scrapeGitLabData fuel e w)) k = store w k"
    by (simp only: outside_same)
qed

theorem refresh_frame_witness:
  "''last_conversation'' \<notin> refreshKeys
   \<and> store (fst (backgroundRefresh 1 envDown world0)) ''last_conversation''
       = Some \<lparr>content = OtherJson ''existingData.pages is not iterable'', scrapedAt = 9\<rparr>
   \<and> store (fst (scrapeGitLabData 1 envDown world0)) ''last_conversation''
       = Some \<lparr>content = OtherJson ''existingData.pages is not iterable'', scrapedAt = 9\<rparr>"
  using refresh_frame [of 1 envDown "store world0" world0]
  by (simp add: refreshKeys_def world0_def)

section \<open>The invariant of the crawl loop\<close>

lemma crawlInv_safe: "crawlInv rootUrl source maxPages log0 cs w \<Longrightarrow> crawlSafe rootUrl source maxPages log0 cs w"
  by (auto simp add: crawlInv_def crawlSafe_def)

lemma stagedPages_iff:
  "stagedPages source w = Some ps \<longleftrightarrow>
     (\<exists>d sd. store w source = Some d \<and> content d = SiteJson sd \<and> pages sd = ps)"
  by (auto simp add: stagedPages_def split: option.splits content.splits)

lemma fetchAttempts_store: "store (fst (fetchAttempts e u attempt w)) = store w"
proof -
  have "store (fst (fetchAttempts e u attempt (outside {} (store w) w))) = store w"
    by (simp add: fetchAttempts_outside fun_eq_iff)
  then show ?thesis by (simp only: outside_same)
qed

lemma fetchAttempts_log:
  "\<exists>n. fetchLog (fst (fetchAttempts e u attempt w)) = fetchLog w @ replicate n u"
proof (induction e u attempt w rule: fetchAttempts.induct)
  case (1 e u attempt w)
  show ?case
  proof (cases "attempt < 3")
    case False
    then have "fetchLog (fst (fetchAttempts e u attempt w)) = fetchLog w @ replicate 0 u"
      by (simp add: fetchAttempts.simps)
    then show ?thesis by blast
  next
    case True
    show ?thesis
    proof (cases "httpGet e (ticks w) u")
      case (Response d)
      with True have "fetchLog (fst (fetchAttempts e u attempt w)) = fetchLog w @ replicate 1 u"
        by (simp add: fetchAttempts.simps [of e u attempt] tick_def)
      then show ?thesis by blast
    next
      case (Failure x)
      show ?thesis
      proof (cases "(isHangup x \<or> isNetwork x) \<and> attempt + 1 < 3")
        case retry: True
        have eq: "fetchAttempts e u attempt w = fetchAttempts e u (attempt + 1) (logged u w)"
          using True Failure retry by (simp add: fetchAttempts.simps [of e u attempt] logged_def)
        obtain n where "fetchLog (fst (fetchAttempts e u (attempt + 1) (logged u w)))
                          = fetchLog (logged u w) @ replicate n u"
          using "1.IH" [OF True Failure retry] by (auto simp add: logged_def)
        then have "fetchLog (fst (fetchAttempts e u attempt w)) = fetchLog w @ replicate (Suc n) u"
          by (simp add: eq logged_def tick_def)
        then show ?thesis by blast
      next
        case False
        with True Failure
        have "fetchLog (fst (fetchAttempts e u attempt w)) = fetchLog w @ replicate 1 u"
          by (auto simp add: fetchAttempts.simps [of e u attempt] tick_def)
        then show ?thesis by blast
      qed
    qed
  qed
qed

lemma newLinks_confined:
  "a \<in> set (newLinks e rootUrl u visited hs) \<Longrightarrow> prefix rootUrl a \<and> a \<notin> visited"
  by (induction hs) (auto simp add: linkCandidate_def split: option.splits if_splits)

lemma saveBatch_cases:
  assumes "stagedPages source w = Some ps"
    and "parse = existingInLoop rootUrl \<or> parse = existingAtEnd rootUrl"
    and "saveBatch parse e source cs w = (cs', w', r)"
  shows "fetchLog w' = fetchLog w \<and>
         (r = Done \<and> stagedPages source w' = Some (ps @ currentBatch cs)
            \<and> cs' = cs\<lparr>totalPagesSaved := totalPagesSaved cs + length (currentBatch cs),
                       currentBatch := []\<rparr>
          \<or> r \<noteq> Done \<and> stagedPages source w' = Some ps \<and> cs' = cs)"
proof -
  obtain d sd where d: "store w source = Some d" "content d = SiteJson sd" "pages sd = ps"
    using assms(1) by (auto simp add: stagedPages_iff)
  have parse: "parse (Some d) = Inr sd"
    using assms(2) d by (auto simp add: existingInLoop_def existingAtEnd_def)
  show ?thesis
    using assms(3) d parse
    by (auto simp add: saveBatch_def findOne_def findOneAndUpdate_def tick_def stagedPages_def
        split: option.splits)
qed

lemma savePage_inv:
  assumes inv: "crawlInv rootUrl source maxPages log0 cs w"
    and lt: "totalPagesSaved cs < maxPages"
    and pu: "prefix rootUrl u"
    and sp: "savePage e rootUrl source maxPages batchSize u d cs w = (cs', w', r)"
  shows "crawlSafe rootUrl source maxPages log0 cs' w'
       \<and> (r = Done \<longrightarrow> crawlInv rootUrl source maxPages log0 cs' w')"
proof (cases "length (bodyText d) > 100")
  case False
  with sp have "cs' = cs" "w' = w" "r = Done"
    by (simp_all add: savePage_def)
  with inv show ?thesis by (simp add: crawlInv_safe)
next
  case True
  define pg where "pg = \<lparr>pg_url = u, pg_title = pageTitle d, pg_text = take 5000 (bodyText d)\<rparr>"
  define cs1 where "cs1 = cs\<lparr>currentBatch := currentBatch cs @ [pg]\<rparr>"
  obtain ps where ps: "stagedPages source w = Some ps" "length ps = totalPagesSaved cs"
      "\<forall>p\<in>set ps. prefix rootUrl (pg_url p)"
    using inv by (auto simp add: crawlInv_def)
  have room: "totalPagesSaved cs + length (currentBatch cs) < maxPages"
    using inv lt by (cases "currentBatch cs = []") (auto simp add: crawlInv_def)
  have batch1: "\<forall>p\<in>set (currentBatch cs1). prefix rootUrl (pg_url p)"
    using inv pu by (auto simp add: crawlInv_def cs1_def pg_def)
  have rest: "\<forall>u\<in>set (queue cs1). prefix rootUrl u" "\<forall>u\<in>visitedUrls cs1. prefix rootUrl u"
      "\<exists>new. fetchLog w = log0 @ new \<and> (\<forall>u\<in>set new. prefix rootUrl u)"
    using inv by (auto simp add: crawlInv_def cs1_def)
  show ?thesis
  proof (cases "length (currentBatch cs1) \<ge> batchSize
                 \<or> totalPagesSaved cs1 + length (currentBatch cs1) \<ge> maxPages")
    case noflush: False
    with sp True have "cs' = cs1" "w' = w" "r = Done"
      by (simp_all add: savePage_def Let_def cs1_def pg_def)
    moreover have "crawlInv rootUrl source maxPages log0 cs1 w"
      using ps batch1 rest noflush by (auto simp add: crawlInv_def cs1_def)
    ultimately show ?thesis by (simp add: crawlInv_safe)
  next
    case flush: True
    with sp True have sb: "saveBatch (existingInLoop rootUrl) e source cs1 w = (cs', w', r)"
      by (simp add: savePage_def Let_def cs1_def pg_def)
    from saveBatch_cases [OF ps(1) _ sb]
    have log: "fetchLog w' = fetchLog w"
      and alt: "r = Done \<and> stagedPages source w' = Some (ps @ currentBatch cs1)
            \<and> cs' = cs1\<lparr>totalPagesSaved := totalPagesSaved cs1 + length (currentBatch cs1),
                         currentBatch := []\<rparr>
          \<or> r \<noteq> Done \<and> stagedPages source w' = Some ps \<and> cs' = cs1"
      by auto
    from alt show ?thesis
    proof
      assume a: "r = Done \<and> stagedPages source w' = Some (ps @ currentBatch cs1)
            \<and> cs' = cs1\<lparr>totalPagesSaved := totalPagesSaved cs1 + length (currentBatch cs1),
                         currentBatch := []\<rparr>"
      have "crawlInv rootUrl source maxPages log0 cs' w'"
        using a ps batch1 rest room log by (auto simp add: crawlInv_def cs1_def)
      then show ?thesis by (simp add: crawlInv_safe)
    next
      assume a: "r \<noteq> Done \<and> stagedPages source w' = Some ps \<and> cs' = cs1"
      have "crawlSafe rootUrl source maxPages log0 cs' w'"
        using a ps rest lt log by (auto simp add: crawlSafe_def)
      with a show ?thesis by simp
    qed
  qed
qed

lemma enqueueLinks_inv:
  assumes "crawlInv rootUrl source maxPages log0 cs w"
  shows "crawlInv rootUrl source maxPages log0 (enqueueLinks e rootUrl maxPages u d cs) w"
  using assms
  by (auto simp add: crawlInv_def enqueueLinks_def dest: in_set_takeD newLinks_confined)

lemma crawlStep_inv:
  assumes inv: "crawlInv rootUrl source maxPages log0 cs w"
    and lt: "totalPagesSaved cs < maxPages"
    and st: "crawlStep e rootUrl source maxPages batchSize cs w = (cs', w', r)"
  shows "crawlSafe rootUrl source maxPages log0 cs' w'
       \<and> (r = Done \<longrightarrow> crawlInv rootUrl source maxPages log0 cs' w')"
proof (cases "queue cs")
  case Nil
  with st have "cs' = cs" "w' = w" "r = Done"
    by (simp_all add: crawlStep_def)
  with inv show ?thesis by (simp add: crawlInv_safe)
next
  case (Cons u rest)
  have pu: "prefix rootUrl u"
    using inv Cons by (simp add: crawlInv_def)
  show ?thesis
  proof (cases "u \<in> visitedUrls cs")
    case True
    with st Cons have "cs' = cs\<lparr>queue := rest\<rparr>" "w' = w" "r = Done"
      by (simp_all add: crawlStep_def)
    moreover have "crawlInv rootUrl source maxPages log0 (cs\<lparr>queue := rest\<rparr>) w"
      using inv Cons by (auto simp add: crawlInv_def)
    ultimately show ?thesis by (simp add: crawlInv_safe)
  next
    case False
    define cs1 where "cs1 = cs\<lparr>queue := rest, visitedUrls := insert u (visitedUrls cs)\<rparr>"
    obtain w1 resp where fa: "fetchAttempts e u 0 w = (w1, resp)"
      by (cases "fetchAttempts e u 0 w")
    have st1: "store w1 = store w"
      using fetchAttempts_store [of e u 0 w] fa by simp
    obtain n where log1: "fetchLog w1 = fetchLog w @ replicate n u"
      using fetchAttempts_log [of e u 0 w] fa by auto
    have inv1: "crawlInv rootUrl source maxPages log0 cs1 w1"
      using inv Cons pu st1 log1
      by (auto simp add: crawlInv_def cs1_def stagedPages_def)
    have lt1: "totalPagesSaved cs1 < maxPages"
      using lt by (simp add: cs1_def)
    show ?thesis
    proof (cases resp)
      case None
      with st Cons False fa have "cs' = cs1" "w' = w1" "r = Done"
        by (simp_all add: crawlStep_def cs1_def)
      with inv1 show ?thesis by (simp add: crawlInv_safe)
    next
      case (Some b)
      show ?thesis
      proof (cases b)
        case (NotHtml msg)
        with st Cons False fa Some have "cs' = cs1" "w' = w1" "r = Raised msg"
          by (simp_all add: crawlStep_def cs1_def)
        with inv1 show ?thesis by (simp add: crawlInv_safe)
      next
        case (Html d)
        obtain cs2 w2 r2
          where sp: "savePage e rootUrl source maxPages batchSize u d cs1 w1 = (cs2, w2, r2)"
          by (cases "savePage e rootUrl source maxPages batchSize u d cs1 w1")
        from savePage_inv [OF inv1 lt1 pu sp]
        have safe2: "crawlSafe rootUrl source maxPages log0 cs2 w2"
          and inv2: "r2 = Done \<longrightarrow> crawlInv rootUrl source maxPages log0 cs2 w2"
          by simp_all
        show ?thesis
        proof (cases "r2 = Done")
          case True
          with st Cons False fa Some Html sp
          have "cs' = enqueueLinks e rootUrl maxPages u d cs2" "w' = w2" "r = Done"
            by (simp_all add: crawlStep_def cs1_def)
          with inv2 True show ?thesis
            by (simp add: enqueueLinks_inv crawlInv_safe)
        next
          case False
          with st Cons \<open>u \<notin> visitedUrls cs\<close> fa Some Html sp
          have "cs' = cs2" "w' = w2" "r = r2"
            by (auto simp add: crawlStep_def cs1_def split: outcome.splits)
          with safe2 False show ?thesis by simp
        qed
      qed
    qed
  qed
qed

lemma crawlLoop_inv:
  assumes "crawlInv rootUrl source maxPages log0 cs w"
    and "crawlLoop n e rootUrl source maxPages batchSize cs w = (cs', w', r)"
  shows "crawlSafe rootUrl source maxPages log0 cs' w'
       \<and> (r = Done \<longrightarrow> crawlInv rootUrl source maxPages log0 cs' w')"
  using assms
proof (induction n arbitrary: cs w)
  case 0
  then show ?case by (auto simp add: crawlInv_safe split: if_splits)
next
  case (Suc n)
  show ?case
  proof (cases "queue cs \<noteq> [] \<and> totalPagesSaved cs < maxPages")
    case False
    with Suc.prems show ?thesis by (auto simp add: crawlInv_safe)
  next
    case True
    obtain cs1 w1 r1 where st: "crawlStep e rootUrl source maxPages batchSize cs w = (cs1, w1, r1)"
      by (cases "crawlStep e rootUrl source maxPages batchSize cs w")
    from crawlStep_inv [OF Suc.prems(1) _ st] True
    have safe1: "crawlSafe rootUrl source maxPages log0 cs1 w1"
      and inv1: "r1 = Done \<longrightarrow> crawlInv rootUrl source maxPages log0 cs1 w1"
      by simp_all
    show ?thesis
    proof (cases "r1 = Done")
      case fin: True
      with Suc.prems(2) True st
      have "crawlLoop n e rootUrl source maxPages batchSize cs1 w1 = (cs', w', r)"
        by simp
      with Suc.IH inv1 fin show ?thesis by blast
    next
      case False
      with Suc.prems(2) True st have "cs' = cs1" "w' = w1" "r = r1"
        by (auto split: outcome.splits)
      with safe1 False show ?thesis by simp
    qed
  qed
qed

lemma finalFlush_inv:
  assumes inv: "crawlInv rootUrl source maxPages log0 cs w"
    and ff: "finalFlush e rootUrl source cs w = (cs', w', r)"
  shows "crawlSafe rootUrl source maxPages log0 cs' w'
       \<and> (r = Done \<longrightarrow> crawlInv rootUrl source maxPages log0 cs' w')"
proof (cases "currentBatch cs = []")
  case True
  with ff have "cs' = cs" "w' = w" "r = Done"
    by (simp_all add: finalFlush_def)
  with inv show ?thesis by (simp add: crawlInv_safe)
next
  case False
  obtain ps where ps: "stagedPages source w = Some ps" "length ps = totalPagesSaved cs"
      "\<forall>p\<in>set ps. prefix rootUrl (pg_url p)"
    using inv by (auto simp add: crawlInv_def)
  from ff False have sb: "saveBatch (existingAtEnd rootUrl) e source cs w = (cs', w', r)"
    by (simp add: finalFlush_def)
  from saveBatch_cases [OF ps(1) _ sb]
  have log: "fetchLog w' = fetchLog w"
    and alt: "r = Done \<and> stagedPages source w' = Some (ps @ currentBatch cs)
            \<and> cs' = cs\<lparr>totalPagesSaved := totalPagesSaved cs + length (currentBatch cs),
                        currentBatch := []\<rparr>
          \<or> r \<noteq> Done \<and> stagedPages source w' = Some ps \<and> cs' = cs"
    by auto
  from alt show ?thesis
  proof
    assume a: "r = Done \<and> stagedPages source w' = Some (ps @ currentBatch cs)
            \<and> cs' = cs\<lparr>totalPagesSaved := totalPagesSaved cs + length (currentBatch cs),
                        currentBatch := []\<rparr>"
    have "crawlInv rootUrl source maxPages log0 cs' w'"
      using a ps inv log by (auto simp add: crawlInv_def)
    then show ?thesis by (simp add: crawlInv_safe)
  next
    assume a: "r \<noteq> Done \<and> stagedPages source w' = Some ps \<and> cs' = cs"
    have "crawlSafe rootUrl source maxPages log0 cs' w'"
      using a ps inv log by (auto simp add: crawlSafe_def crawlInv_def)
    with a show ?thesis by simp
  qed
qed

lemma scrapeAndSaveSiteState_inv:
  assumes ok: "dbFault e (ticks w) = None"
    and run: "scrapeAndSaveSiteState fuel e rootUrl source maxPages batchSize w = (cs', w', r)"
  shows "crawlSafe rootUrl source maxPages (fetchLog w) cs' w'
       \<and> (r = Done \<longrightarrow> crawlInv rootUrl source maxPages (fetchLog w) cs' w')"
proof -
  define w1 where "w1 = fst (findOneAndUpdate e source (SiteJson (freshData rootUrl)) w)"
  have up: "findOneAndUpdate e source (SiteJson (freshData rootUrl)) w = (w1, Done)"
    using ok by (simp add: w1_def findOneAndUpdate_def)
  have inv1: "crawlInv rootUrl source maxPages (fetchLog w) (crawlInit rootUrl) w1"
    using ok
    by (simp add: w1_def findOneAndUpdate_def tick_def crawlInv_def crawlInit_def
        stagedPages_def freshData_def)
  obtain cs2 w2 r2 where lp:
    "crawlLoop fuel e rootUrl source maxPages batchSize (crawlInit rootUrl) w1 = (cs2, w2, r2)"
    by (cases "crawlLoop fuel e rootUrl source maxPages batchSize (crawlInit rootUrl) w1")
  from crawlLoop_inv [OF inv1 lp]
  have safe2: "crawlSafe rootUrl source maxPages (fetchLog w) cs2 w2"
    and inv2: "r2 = Done \<longrightarrow> crawlInv rootUrl source maxPages (fetchLog w) cs2 w2"
    by simp_all
  show ?thesis
  proof (cases "r2 = Done")
    case True
    with run up lp have "finalFlush e rootUrl source cs2 w2 = (cs', w', r)"
      by (simp add: scrapeAndSaveSiteState_def)
    with finalFlush_inv inv2 True show ?thesis by blast
  next
    case False
    with run up lp have "cs' = cs2" "w' = w2" "r = r2"
      by (auto simp add: scrapeAndSaveSiteState_def split: outcome.splits)
    with safe2 False show ?thesis by simp
  qed
qed

section \<open>Claims about the crawl of one source\<close>

lemma scrapeAndSaveSiteState_not_started:
  "dbFault e (ticks w) = Some msg \<Longrightarrow>
   scrapeAndSaveSiteState fuel e rootUrl source maxPages batchSize w
     = (crawlInit rootUrl, tick w, Raised msg)"
  by (simp add: scrapeAndSaveSiteState_def findOneAndUpdate_def)

text \<open>
  C5. In every state a crawl of a source reaches once its first write has succeeded (at the
  end of the crawl, where a flush has thrown, where the fuel has run out), each page in the
  snapshot kept under the source's staging key has a URL that starts with the root URL, and
  so does each URL in the queue, each visited URL and each URL the crawl has handed to
  \<^verbatim>\<open>axios.get\<close>: a link that does not start with the root URL is never enqueued and never
  fetched.
\<close>

theorem domain_confinement:
  assumes "scrapeAndSaveSiteState fuel e rootUrl source maxPages batchSize w = (cs, w', r)"
    and "dbFault e (ticks w) = None"
  shows "(\<exists>d sd. store w' source = Some d \<and> content d = SiteJson sd
            \<and> (\<forall>p\<in>set (pages sd). prefix rootUrl (pg_url p)))
       \<and> (\<forall>u\<in>set (queue cs). prefix rootUrl u)
       \<and> (\<forall>u\<in>visitedUrls cs. prefix rootUrl u)
       \<and> (\<exists>new. fetchLog w' = fetchLog w @ new \<and> (\<forall>u\<in>set new. prefix rootUrl u))"
proof -
  have "crawlSafe rootUrl source maxPages (fetchLog w) cs w'"
    using scrapeAndSaveSiteState_inv [OF assms(2) assms(1)] by simp
  then show ?thesis
    by (auto simp add: crawlSafe_def stagedPages_iff)
qed

text \<open>
  C6. In every state a crawl of a source reaches once its first write has succeeded, the
  snapshot kept under the source's key has at most \<^verbatim>\<open>maxPages\<close> pages, whatever
  \<^verbatim>\<open>batchSize\<close> is; when the crawl returns, that number is its \<^verbatim>\<open>totalPagesSaved\<close>. When
  the first write fails the crawl throws and has saved nothing.
\<close>

theorem page_ceiling:
  assumes "scrapeAndSaveSiteState fuel e rootUrl source maxPages batchSize w = (cs, w', r)"
  shows "(dbFault e (ticks w) = None \<longrightarrow>
            (\<exists>d sd. store w' source = Some d \<and> content d = SiteJson sd
               \<and> length (pages sd) \<le> maxPages
               \<and> (r = Done \<longrightarrow> length (pages sd) = totalPagesSaved cs)))
       \<and> (dbFault e (ticks w) \<noteq> None \<longrightarrow> store w' = store w \<and> (\<exists>msg. r = Raised msg))"
proof (rule conjI; rule impI)
  assume ok: "dbFault e (ticks w) = None"
  have "crawlSafe rootUrl source maxPages (fetchLog w) cs w'"
    and "r = Done \<longrightarrow> crawlInv rootUrl source maxPages (fetchLog w) cs w'"
    using scrapeAndSaveSiteState_inv [OF ok assms] by simp_all
  then show "\<exists>d sd. store w' source = Some d \<and> content d = SiteJson sd
               \<and> length (pages sd) \<le> maxPages
               \<and> (r = Done \<longrightarrow> length (pages sd) = totalPagesSaved cs)"
    by (auto simp add: crawlSafe_def crawlInv_def stagedPages_iff)
next
  assume "dbFault e (ticks w) \<noteq> None"
  then obtain msg where "dbFault e (ticks w) = Some msg" by auto
  from scrapeAndSaveSiteState_not_started [OF this] assms
  show "store w' = store w \<and> (\<exists>msg. r = Raised msg)"
    by (auto simp add: tick_def)
qed

lemma envSite_run:
  "scrapeAndSaveSiteState 2 envSite handbookUrl ''handbook_staging'' 2 10 world0
     = (\<lparr>visitedUrls = {''https://handbook.gitlab.com/a'', handbookUrl},
         queue = [''https://handbook.gitlab.com/b''], currentBatch = [], totalPagesSaved = 2\<rparr>,
        world0\<lparr>store := (store world0)(''handbook_staging'' \<mapsto>
                  \<lparr>content = SiteJson \<lparr>sd_title = [], sd_url = handbookUrl,
                       pages = [\<lparr>pg_url = handbookUrl, pg_title = ''T'', pg_text = longText\<rparr>,
                                \<lparr>pg_url = ''https://handbook.gitlab.com/a'', pg_title = ''T'',
                                   pg_text = longText\<rparr>]\<rparr>,
                    scrapedAt = 104\<rparr>),
               ticks := 5, fetchLog := [handbookUrl, ''https://handbook.gitlab.com/a'']\<rparr>,
        Done)"
  by (simp add: world0_def envSite_def sitePage_def longText_def refresh_eval numeral_2_eq_2)

text \<open>
  A crawl with ceiling 2 of a site whose pages all link to \<^verbatim>\<open>/a\<close>, to another domain and to
  \<^verbatim>\<open>/b\<close>: the other domain is nowhere.
\<close>

theorem domain_confinement_witness:
  "dbFault envSite (ticks world0) = None
   \<and> hrefs sitePage = [''https://handbook.gitlab.com/a'', ''https://other.example/x'',
                        ''https://handbook.gitlab.com/b'']
   \<and> queue (fst (scrapeAndSaveSiteState 2 envSite handbookUrl ''handbook_staging'' 2 10 world0))
       = [''https://handbook.gitlab.com/b'']
   \<and> visitedUrls (fst (scrapeAndSaveSiteState 2 envSite handbookUrl ''handbook_staging'' 2 10 world0))
       = {''https://handbook.gitlab.com/a'', handbookUrl}
   \<and> fetchLog (fst (snd (scrapeAndSaveSiteState 2 envSite handbookUrl ''handbook_staging'' 2 10 world0)))
       = fetchLog world0 @ [handbookUrl, ''https://handbook.gitlab.com/a'']
   \<and> map_option (map pg_url)
         (stagedPages ''handbook_staging''
            (fst (snd (scrapeAndSaveSiteState 2 envSite handbookUrl ''handbook_staging'' 2 10 world0))))
       = Some [handbookUrl, ''https://handbook.gitlab.com/a'']
   \<and> prefix handbookUrl ''https://handbook.gitlab.com/a''
   \<and> prefix handbookUrl ''https://handbook.gitlab.com/b''"
  using domain_confinement [OF envSite_run] unfolding envSite_run
  by (simp add: envSite_def sitePage_def world0_def stagedPages_def handbookUrl_def)

text \<open>
  The same crawl: three pages can be reached, two are saved.
\<close>

theorem page_ceiling_witness:
  "dbFault envSite (ticks world0) = None
   \<and> snd (snd (scrapeAndSaveSiteState 2 envSite handbookUrl ''handbook_staging'' 2 10 world0)) = Done
   \<and> totalPagesSaved (fst (scrapeAndSaveSiteState 2 envSite handbookUrl ''handbook_staging'' 2 10 world0)) = 2
   \<and> map_option length
         (stagedPages ''handbook_staging''
            (fst (snd (scrapeAndSaveSiteState 2 envSite handbookUrl ''handbook_staging'' 2 10 world0))))
       = Some 2
   \<and> dbFault envStoreDown (ticks world0) = Some ''store unavailable''
   \<and> store (fst (snd (scrapeAndSaveSiteState 2 envStoreDown handbookUrl ''handbook_staging'' 2 10 world0)))
       = store world0
   \<and> snd (snd (scrapeAndSaveSiteState 2 envStoreDown handbookUrl ''handbook_staging'' 2 10 world0))
       = Raised ''store unavailable''"
proof -
  have down: "scrapeAndSaveSiteState 2 envStoreDown handbookUrl ''handbook_staging'' 2 10 world0
      = (crawlInit handbookUrl, tick world0, Raised ''store unavailable'')"
    by (rule scrapeAndSaveSiteState_not_started) (simp add: envStoreDown_def)
  from page_ceiling [OF envSite_run] page_ceiling [OF down]
  show ?thesis
    unfolding envSite_run down
    by (simp add: envSite_def envStoreDown_def world0_def stagedPages_def tick_def)
qed

section \<open>Claims about skipped pages and about links\<close>

lemma savePage_frame:
  "savePage e rootUrl source maxPages batchSize u d cs w = (cs', w', r) \<Longrightarrow>
   queue cs' = queue cs \<and> visitedUrls cs' = visitedUrls cs"
  by (auto simp add: savePage_def saveBatch_def Let_def split_beta
      split: if_splits sum.splits outcome.splits)

lemma savePage_thin:
  "length (bodyText d) \<le> 100 \<Longrightarrow>
   savePage e rootUrl source maxPages batchSize u d cs w = (cs, w, Done)"
  by (simp add: savePage_def)

lemma newLinks_subseq:
  "subseq (newLinks e rootUrl u visited hs) (List.map_filter (resolve e u) hs)"
  by (induction hs)
     (auto simp add: linkCandidate_def split: option.splits if_splits)

text \<open>
  C7, as the code has it. A pass on a URL whose fetch fails only marks the URL visited: the
  queue is the rest of the queue, and nothing is saved. A pass on a page whose text has at
  most 100 characters saves nothing either, but it does enqueue the page's links, the first
  five that start with the root URL and are not visited, as for a page that is saved.
\<close>

theorem skipped_and_failed_pages:
  assumes "queue cs = u # rest" and "u \<notin> visitedUrls cs"
  shows "(fetchAttempts e u 0 w = (w1, None) \<longrightarrow>
            crawlStep e rootUrl source maxPages batchSize cs w
              = (cs\<lparr>queue := rest, visitedUrls := insert u (visitedUrls cs)\<rparr>, w1, Done)
            \<and> store w1 = store w)
       \<and> (fetchAttempts e u 0 w = (w1, Some (Html d)) \<and> length (bodyText d) \<le> 100
            \<and> totalPagesSaved cs < maxPages \<longrightarrow>
            crawlStep e rootUrl source maxPages batchSize cs w
              = (cs\<lparr>queue := rest @ take 5 (newLinks e rootUrl u (insert u (visitedUrls cs)) (hrefs d)),
                    visitedUrls := insert u (visitedUrls cs)\<rparr>, w1, Done)
            \<and> store w1 = store w)"
proof (rule conjI; rule impI)
  assume fa: "fetchAttempts e u 0 w = (w1, None)"
  have "store w1 = store w"
    using fetchAttempts_store [of e u 0 w] fa by simp
  with assms fa show "crawlStep e rootUrl source maxPages batchSize cs w
              = (cs\<lparr>queue := rest, visitedUrls := insert u (visitedUrls cs)\<rparr>, w1, Done)
            \<and> store w1 = store w"
    by (simp add: crawlStep_def)
next
  assume a: "fetchAttempts e u 0 w = (w1, Some (Html d)) \<and> length (bodyText d) \<le> 100
            \<and> totalPagesSaved cs < maxPages"
  have "store w1 = store w"
    using fetchAttempts_store [of e u 0 w] a by simp
  with assms a show "crawlStep e rootUrl source maxPages batchSize cs w
              = (cs\<lparr>queue := rest @ take 5 (newLinks e rootUrl u (insert u (visitedUrls cs)) (hrefs d)),
                    visitedUrls := insert u (visitedUrls cs)\<rparr>, w1, Done)
            \<and> store w1 = store w"
    by (simp add: crawlStep_def savePage_thin enqueueLinks_def)
qed

text \<open>
  C7 as stated fails: the page at the root has five characters of text, it is skipped, and
  the link it carries is in the queue after the pass.
\<close>

theorem skipped_page_counterexample:
  "length (bodyText thinPage) < 100
   \<and> fetchAttempts envThin handbookUrl 0 world0
       = (world0\<lparr>ticks := 1, fetchLog := [handbookUrl]\<rparr>, Some (Html thinPage))
   \<and> crawlStep envThin handbookUrl ''handbook_staging'' 50 10 (crawlInit handbookUrl) world0
       = (\<lparr>visitedUrls = {handbookUrl}, queue = [''https://handbook.gitlab.com/a''],
           currentBatch = [], totalPagesSaved = 0\<rparr>,
          world0\<lparr>ticks := 1, fetchLog := [handbookUrl]\<rparr>, Done)"
  by (simp add: world0_def envThin_def thinPage_def refresh_eval)

lemma envThin_fetch:
  "fetchAttempts envThin handbookUrl 0 world0
     = (world0\<lparr>ticks := 1, fetchLog := [handbookUrl]\<rparr>, Some (Html thinPage))"
  by (simp add: world0_def envThin_def refresh_eval)

lemma envDown_fetch:
  "fetchAttempts envDown handbookUrl 0 world0
     = (world0\<lparr>ticks := 3, fetchLog := [handbookUrl, handbookUrl, handbookUrl]\<rparr>, None)"
  by (simp add: world0_def envDown_def connReset_def refresh_eval)

text \<open>
  Both halves of the amended C7: a root whose fetch fails, and the thin page above.
\<close>

theorem skipped_and_failed_pages_witness:
  "crawlStep envDown handbookUrl ''handbook_staging'' 50 10 (crawlInit handbookUrl) world0
     = (\<lparr>visitedUrls = {handbookUrl}, queue = [], currentBatch = [], totalPagesSaved = 0\<rparr>,
        world0\<lparr>ticks := 3, fetchLog := [handbookUrl, handbookUrl, handbookUrl]\<rparr>, Done)
   \<and> length (bodyText thinPage) \<le> 100
   \<and> crawlStep envThin handbookUrl ''handbook_staging'' 50 10 (crawlInit handbookUrl) world0
     = (\<lparr>visitedUrls = {handbookUrl}, queue = [''https://handbook.gitlab.com/a''],
         currentBatch = [], totalPagesSaved = 0\<rparr>,
        world0\<lparr>ticks := 1, fetchLog := [handbookUrl]\<rparr>, Done)"
  using skipped_and_failed_pages [where cs = "crawlInit handbookUrl" and u = handbookUrl
      and rest = "[]" and e = envDown and w = world0
      and ?w1.0 = "world0\<lparr>ticks := 3, fetchLog := [handbookUrl, handbookUrl, handbookUrl]\<rparr>"
      and d = thinPage and maxPages = 50 and rootUrl = handbookUrl
      and source = "''handbook_staging''" and batchSize = 10]
    skipped_and_failed_pages [where cs = "crawlInit handbookUrl" and u = handbookUrl
      and rest = "[]" and e = envThin and w = world0
      and ?w1.0 = "world0\<lparr>ticks := 1, fetchLog := [handbookUrl]\<rparr>"
      and d = thinPage and maxPages = 50 and rootUrl = handbookUrl
      and source = "''handbook_staging''" and batchSize = 10]
  unfolding envThin_fetch envDown_fetch
  by (simp add: crawlInit_def thinPage_def envThin_def linkCandidate_def handbookUrl_def)

text \<open>
  C8, as the code has it. After a pass that fetched a page and threw nothing, the queue is
  the rest of the queue followed by the links added: none when the page ceiling has been
  reached, otherwise the first five of \<^verbatim>\<open>newLinks\<close>. There are at most five of them, in the
  order of the page's \<^verbatim>\<open>href\<close>s, each starts with the root URL and is neither the page
  itself nor a visited URL. Whether a link is in the queue already is not looked at.
\<close>

theorem enqueue_rule:
  assumes "queue cs = u # rest" and "u \<notin> visitedUrls cs"
    and "fetchAttempts e u 0 w = (w1, Some (Html d))"
    and "crawlStep e rootUrl source maxPages batchSize cs w = (cs', w', Done)"
  shows "\<exists>added. queue cs' = rest @ added
           \<and> added = (if totalPagesSaved cs' < maxPages
                       then take 5 (newLinks e rootUrl u (insert u (visitedUrls cs)) (hrefs d))
                       else [])
           \<and> length added \<le> 5
           \<and> (\<forall>a\<in>set added. prefix rootUrl a \<and> a \<noteq> u \<and> a \<notin> visitedUrls cs)
           \<and> subseq added (List.map_filter (resolve e u) (hrefs d))"
proof -
  define cs1 where "cs1 = cs\<lparr>queue := rest, visitedUrls := insert u (visitedUrls cs)\<rparr>"
  obtain cs2 w2 r2 where sp: "savePage e rootUrl source maxPages batchSize u d cs1 w1 = (cs2, w2, r2)"
    by (cases "savePage e rootUrl source maxPages batchSize u d cs1 w1")
  have fr: "queue cs2 = rest" "visitedUrls cs2 = insert u (visitedUrls cs)"
    using savePage_frame [OF sp] by (simp_all add: cs1_def)
  have r2: "r2 = Done" and cs': "cs' = enqueueLinks e rootUrl maxPages u d cs2"
    using assms sp by (auto simp add: crawlStep_def cs1_def split: outcome.splits)
  define nl where "nl = newLinks e rootUrl u (insert u (visitedUrls cs)) (hrefs d)"
  define added where "added = (if totalPagesSaved cs' < maxPages then take 5 nl else [])"
  have q: "queue cs' = rest @ added"
    using fr by (simp add: cs' enqueueLinks_def added_def nl_def)
  have conf: "\<forall>a\<in>set added. prefix rootUrl a \<and> a \<noteq> u \<and> a \<notin> visitedUrls cs"
    using newLinks_confined [of _ e rootUrl u "insert u (visitedUrls cs)" "hrefs d"]
    by (auto simp add: added_def nl_def dest: in_set_takeD)
  have "subseq (take 5 nl) nl"
    by (metis append_take_drop_id subseq_order.order_refl list_emb_append_mono list_emb_Nil
        append_Nil2)
  moreover have "subseq nl (List.map_filter (resolve e u) (hrefs d))"
    by (simp add: nl_def newLinks_subseq)
  ultimately have "subseq added (List.map_filter (resolve e u) (hrefs d))"
    by (auto simp add: added_def intro: subseq_order.order_trans)
  with q conf show ?thesis
    by (auto simp add: added_def nl_def)
qed

text \<open>
  C8 as stated fails: the root links to \<^verbatim>\<open>/a\<close> and \<^verbatim>\<open>/b\<close>, \<^verbatim>\<open>/a\<close> links to \<^verbatim>\<open>/b\<close>, and after
  two passes \<^verbatim>\<open>/b\<close>, which was in the queue when \<^verbatim>\<open>/a\<close> was read, is in it twice.
\<close>

theorem enqueue_rule_counterexample:
  "queue (fst (crawlLoop 2 envDup handbookUrl ''handbook_staging'' 50 10 (crawlInit handbookUrl) world0))
     = [''https://handbook.gitlab.com/b'', ''https://handbook.gitlab.com/b'']"
  by (simp add: world0_def envDup_def longText_def refresh_eval numeral_2_eq_2)

lemma envMany_fetch:
  "fetchAttempts envMany handbookUrl 0 world0
     = (world0\<lparr>ticks := 1, fetchLog := [handbookUrl]\<rparr>, Some (Html manyLinksPage))"
  by (simp add: world0_def envMany_def refresh_eval)

lemma envMany_step:
  "crawlStep envMany handbookUrl ''handbook_staging'' 50 10 (crawlInit handbookUrl) world0
     = (\<lparr>visitedUrls = {handbookUrl},
         queue = [''https://handbook.gitlab.com/1'', ''https://handbook.gitlab.com/2'',
                  ''https://handbook.gitlab.com/3'', ''https://handbook.gitlab.com/4'',
                  ''https://handbook.gitlab.com/5''],
         currentBatch = [\<lparr>pg_url = handbookUrl, pg_title = ''Index'', pg_text = longText\<rparr>],
         totalPagesSaved = 0\<rparr>,
        world0\<lparr>ticks := 1, fetchLog := [handbookUrl]\<rparr>, Done)"
  by (simp add: world0_def envMany_def manyLinksPage_def longText_def refresh_eval)

text \<open>
  A page with ten links: a \<^verbatim>\<open>mailto\<close>, another domain, a fragment and seven pages of the
  site. The first five of the seven are enqueued, in order.
\<close>

theorem enqueue_rule_witness:
  "fetchAttempts envMany handbookUrl 0 world0
     = (world0\<lparr>ticks := 1, fetchLog := [handbookUrl]\<rparr>, Some (Html manyLinksPage))
   \<and> snd (snd (crawlStep envMany handbookUrl ''handbook_staging'' 50 10 (crawlInit handbookUrl) world0))
       = Done
   \<and> queue (fst (crawlStep envMany handbookUrl ''handbook_staging'' 50 10 (crawlInit handbookUrl) world0))
       = [''https://handbook.gitlab.com/1'', ''https://handbook.gitlab.com/2'',
          ''https://handbook.gitlab.com/3'', ''https://handbook.gitlab.com/4'',
          ''https://handbook.gitlab.com/5'']"
  using enqueue_rule [OF _ _ envMany_fetch envMany_step, of "[]"]
  unfolding envMany_fetch envMany_step
  by (simp add: crawlInit_def)

text \<open>
  C9 on the code. The handler of \<^verbatim>\<open>POST /refresh-data\<close> awaits \<^verbatim>\<open>backgroundRefresh()\<close>. With
  a store that is down the answer says that the refresh failed; with a store that works
  the answer says the refresh was started in the background, but by then fifteen calls
  have been made, the production record has been replaced and \<^verbatim>\<open>isRefreshing\<close> is false
  again. The answer comes after the refresh and depends on how it ended.
\<close>

theorem refresh_route_waits:
  "snd (refreshDataRoute 1 envStoreDown world0)
     = Some \<lparr>resp_message = ''Refresh failed: store unavailable'', resp_isRefreshing = False,
             resp_lastRefreshAttempt = Some 100, resp_startTime = Some 100, resp_timestamp = 102\<rparr>
   \<and> snd (refreshDataRoute 1 envDown world0)
     = Some \<lparr>resp_message = ''GitLab data refresh started in background'', resp_isRefreshing = False,
             resp_lastRefreshAttempt = Some 100, resp_startTime = Some 100, resp_timestamp = 115\<rparr>
   \<and> ticks (fst (refreshDataRoute 1 envDown world0)) = 15
   \<and> store (fst (refreshDataRoute 1 envDown world0)) ''handbook''
     = Some \<lparr>content = SiteJson \<lparr>sd_title = [], sd_url = handbookUrl, pages = []\<rparr>, scrapedAt = 111\<rparr>"
  by (simp add: refreshDataRoute_def world0_def envStoreDown_def envDown_def connReset_def refresh_eval)

section \<open>A refresh whose store never fails\<close>

lemma fetchAttempts_world:
  "\<exists>n. fst (fetchAttempts e u attempt w)
         = w\<lparr>ticks := ticks w + n, fetchLog := fetchLog w @ replicate n u\<rparr>"
proof (induction e u attempt w rule: fetchAttempts.induct)
  case (1 e u attempt w)
  have one: "logged u w = w\<lparr>ticks := ticks w + 1, fetchLog := fetchLog w @ replicate 1 u\<rparr>"
    by (simp add: logged_def tick_def)
  show ?case
  proof (cases "attempt < 3")
    case False
    then have "fst (fetchAttempts e u attempt w)
                = w\<lparr>ticks := ticks w + 0, fetchLog := fetchLog w @ replicate 0 u\<rparr>"
      by (simp add: fetchAttempts.simps)
    then show ?thesis by blast
  next
    case True
    show ?thesis
    proof (cases "httpGet e (ticks w) u")
      case (Response d)
      with True have "fst (fetchAttempts e u attempt w) = logged u w"
        by (simp add: fetchAttempts.simps [of e u attempt] logged_def)
      with one show ?thesis by metis
    next
      case (Failure x)
      show ?thesis
      proof (cases "(isHangup x \<or> isNetwork x) \<and> attempt + 1 < 3")
        case retry: True
        have eq: "fetchAttempts e u attempt w = fetchAttempts e u (attempt + 1) (logged u w)"
          using True Failure retry by (simp add: fetchAttempts.simps [of e u attempt] logged_def)
        obtain n where "fst (fetchAttempts e u (attempt + 1) (logged u w))
            = (logged u w)\<lparr>ticks := ticks (logged u w) + n,
                            fetchLog := fetchLog (logged u w) @ replicate n u\<rparr>"
          using "1.IH" [OF True Failure retry] by (auto simp add: logged_def)
        then have "fst (fetchAttempts e u attempt w)
            = w\<lparr>ticks := ticks w + Suc n, fetchLog := fetchLog w @ replicate (Suc n) u\<rparr>"
          by (simp add: eq logged_def tick_def replicate_append_same)
        then show ?thesis by blast
      next
        case False
        with True Failure have "fst (fetchAttempts e u attempt w) = logged u w"
          by (auto simp add: fetchAttempts.simps [of e u attempt] logged_def)
        with one show ?thesis by metis
      qed
    qed
  qed
qed

lemma fetchAttempts_status: "refreshStatus (fst (fetchAttempts e u attempt w)) = refreshStatus w"
proof -
  obtain n where "fst (fetchAttempts e u attempt w)
         = w\<lparr>ticks := ticks w + n, fetchLog := fetchLog w @ replicate n u\<rparr>"
    using fetchAttempts_world by blast
  then show ?thesis by simp
qed

lemma findOne_status: "refreshStatus (fst (findOne e k w)) = refreshStatus w"
  by (simp add: findOne_def tick_def)

lemma findOneAndUpdate_status: "refreshStatus (fst (findOneAndUpdate e k c w)) = refreshStatus w"
  by (simp add: findOneAndUpdate_def tick_def split: option.splits)

lemma deleteMany_status: "refreshStatus (fst (deleteMany e ks w)) = refreshStatus w"
  by (simp add: deleteMany_def tick_def split: option.splits)

lemma saveBatch_status:
  "refreshStatus (fst (snd (saveBatch parse e source cs w))) = refreshStatus w"
  by (simp add: saveBatch_def split_beta findOne_status findOneAndUpdate_status
      split: sum.splits outcome.splits)

lemma savePage_status:
  "refreshStatus (fst (snd (savePage e rootUrl source maxPages batchSize u d cs w))) = refreshStatus w"
  by (simp add: savePage_def Let_def saveBatch_status)

lemma crawlStep_status:
  "refreshStatus (fst (snd (crawlStep e rootUrl source maxPages batchSize cs w))) = refreshStatus w"
  by (simp add: crawlStep_def Let_def split_beta savePage_status fetchAttempts_status
      split: list.splits option.splits body.splits outcome.splits)

lemma crawlLoop_status:
  "refreshStatus (fst (snd (crawlLoop n e rootUrl source maxPages batchSize cs w))) = refreshStatus w"
proof (induction n arbitrary: cs w)
  case 0
  then show ?case by simp
next
  case (Suc n)
  then show ?case
    by (simp add: split_beta crawlStep_status split: outcome.splits)
qed

lemma finalFlush_status:
  "refreshStatus (fst (snd (finalFlush e rootUrl source cs w))) = refreshStatus w"
  by (simp add: finalFlush_def saveBatch_status)

lemma scrapeAndSaveSite_status:
  "refreshStatus (fst (scrapeAndSaveSite fuel e rootUrl source maxPages batchSize w)) = refreshStatus w"
  by (simp add: scrapeAndSaveSite_def scrapeAndSaveSiteState_def split_beta
      findOneAndUpdate_status crawlLoop_status finalFlush_status split: outcome.splits)

lemma startSession_status: "refreshStatus (fst (startSession e w)) = refreshStatus w"
  by (simp add: startSession_def tick_def)

lemma copyToProduction_status:
  "refreshStatus (fst (copyToProduction e k staging w)) = refreshStatus w"
  by (simp add: copyToProduction_def findOneAndUpdate_status split: option.splits)

lemma swapCallback_status: "refreshStatus (fst (swapCallback e w)) = refreshStatus w"
  by (simp add: swapCallback_def split_beta findOne_status copyToProduction_status
      deleteMany_status split: outcome.splits sum.splits)

lemma withTransaction_status: "refreshStatus (fst (withTransaction e w)) = refreshStatus w"
  by (simp add: withTransaction_def split_beta tick_def swapCallback_status
      split: outcome.splits option.splits)

lemma scrapeGitLabDataTry_status:
  "refreshStatus (fst (scrapeGitLabDataTry fuel e w)) = refreshStatus w"
  by (simp add: scrapeGitLabDataTry_def split_beta scrapeAndSaveSite_status startSession_status
      withTransaction_status split: outcome.splits)

lemma scrapeGitLabData_status: "refreshStatus (fst (scrapeGitLabData fuel e w)) = refreshStatus w"
  by (simp add: scrapeGitLabData_def split_beta scrapeGitLabDataTry_status deleteMany_status
      split: outcome.splits)

lemma fetchAttempts_result:
  "snd (fetchAttempts e u attempt w) = Some b \<Longrightarrow> \<exists>t. httpGet e t u = Response b"
proof (induction e u attempt w rule: fetchAttempts.induct)
  case (1 e u attempt w)
  show ?case
  proof (cases "attempt < 3")
    case False
    with "1.prems" show ?thesis by (simp add: fetchAttempts.simps)
  next
    case True
    show ?thesis
    proof (cases "httpGet e (ticks w) u")
      case (Response b')
      with True "1.prems" have "b' = b"
        by (simp add: fetchAttempts.simps [of e u attempt])
      with Response show ?thesis by blast
    next
      case (Failure x)
      show ?thesis
      proof (cases "(isHangup x \<or> isNetwork x) \<and> attempt + 1 < 3")
        case retry: True
        have "fetchAttempts e u attempt w = fetchAttempts e u (attempt + 1) (logged u w)"
          using True Failure retry by (simp add: fetchAttempts.simps [of e u attempt] logged_def)
        with "1.prems" "1.IH" [OF True Failure retry] show ?thesis
          by (simp add: logged_def)
      next
        case False
        with True Failure "1.prems" show ?thesis
          by (auto simp add: fetchAttempts.simps [of e u attempt])
      qed
    qed
  qed
qed

lemma saveBatch_nofault:
  assumes "\<forall>t. dbFault e t = None" and "stagedPages source w = Some ps"
    and "parse = existingInLoop rootUrl \<or> parse = existingAtEnd rootUrl"
  shows "snd (snd (saveBatch parse e source cs w)) = Done"
proof -
  obtain d sd where d: "store w source = Some d" "content d = SiteJson sd"
    using assms(2) by (auto simp add: stagedPages_iff)
  have "parse (Some d) = Inr sd"
    using assms(3) d by (auto simp add: existingInLoop_def existingAtEnd_def)
  with assms(1) d show ?thesis
    by (simp add: saveBatch_def findOne_def findOneAndUpdate_def)
qed

lemma savePage_nofault:
  assumes "\<forall>t. dbFault e t = None" and "stagedPages source w = Some ps"
  shows "snd (snd (savePage e rootUrl source maxPages batchSize u d cs w)) = Done"
  using saveBatch_nofault [OF assms, of "existingInLoop rootUrl" rootUrl]
  by (simp add: savePage_def Let_def)

lemma crawlStep_nofault:
  assumes nf: "\<forall>t. dbFault e t = None"
    and html: "\<forall>t u msg. httpGet e t u \<noteq> Response (NotHtml msg)"
    and staged: "stagedPages source w = Some ps"
  shows "snd (snd (crawlStep e rootUrl source maxPages batchSize cs w)) = Done"
proof (cases "queue cs")
  case Nil
  then show ?thesis by (simp add: crawlStep_def)
next
  case (Cons u rest)
  show ?thesis
  proof (cases "u \<in> visitedUrls cs")
    case True
    with Cons show ?thesis by (simp add: crawlStep_def)
  next
    case False
    obtain w1 resp where fa: "fetchAttempts e u 0 w = (w1, resp)"
      by (cases "fetchAttempts e u 0 w")
    have st1: "stagedPages source w1 = Some ps"
      using staged fetchAttempts_store [of e u 0 w] fa by (simp add: stagedPages_def)
    show ?thesis
    proof (cases resp)
      case None
      with Cons False fa show ?thesis by (simp add: crawlStep_def)
    next
      case (Some b)
      show ?thesis
      proof (cases b)
        case (NotHtml msg)
        with fetchAttempts_result [of e u 0 w b] fa Some html show ?thesis
          by auto
      next
        case (Html d)
        with Cons False fa Some
          savePage_nofault [OF nf st1, of rootUrl maxPages batchSize u d
            "cs\<lparr>queue := rest, visitedUrls := insert u (visitedUrls cs)\<rparr>"]
        show ?thesis
          by (simp add: crawlStep_def Let_def split_beta)
      qed
    qed
  qed
qed

lemma crawlLoop_nofault:
  assumes "\<forall>t. dbFault e t = None"
    and "\<forall>t u msg. httpGet e t u \<noteq> Response (NotHtml msg)"
    and "crawlInv rootUrl source maxPages log0 cs w"
  shows "snd (snd (crawlLoop n e rootUrl source maxPages batchSize cs w)) \<noteq> Raised msg"
  using assms(3)
proof (induction n arbitrary: cs w)
  case 0
  then show ?case by simp
next
  case (Suc n)
  show ?case
  proof (cases "queue cs \<noteq> [] \<and> totalPagesSaved cs < maxPages")
    case False
    then show ?thesis by auto
  next
    case True
    obtain cs1 w1 r1 where st: "crawlStep e rootUrl source maxPages batchSize cs w = (cs1, w1, r1)"
      by (cases "crawlStep e rootUrl source maxPages batchSize cs w")
    obtain ps where "stagedPages source w = Some ps"
      using Suc.prems by (auto simp add: crawlInv_def)
    from crawlStep_nofault [OF assms(1,2) this, of rootUrl maxPages batchSize cs] st
    have r1: "r1 = Done" by simp
    with crawlStep_inv [OF Suc.prems _ st] True
    have "crawlInv rootUrl source maxPages log0 cs1 w1" by simp
    from Suc.IH [OF this] True st r1 show ?thesis by simp
  qed
qed

lemma scrapeAndSaveSite_nofault:
  assumes nf: "\<forall>t. dbFault e t = None"
    and html: "\<forall>t u msg. httpGet e t u \<noteq> Response (NotHtml msg)"
  shows "snd (scrapeAndSaveSite fuel e rootUrl source maxPages batchSize w) \<noteq> Raised msg"
proof -
  define w1 where "w1 = fst (findOneAndUpdate e source (SiteJson (freshData rootUrl)) w)"
  have up: "findOneAndUpdate e source (SiteJson (freshData rootUrl)) w = (w1, Done)"
    using nf by (simp add: w1_def findOneAndUpdate_def)
  have inv1: "crawlInv rootUrl source maxPages (fetchLog w) (crawlInit rootUrl) w1"
    using nf
    by (simp add: w1_def findOneAndUpdate_def tick_def crawlInv_def crawlInit_def
        stagedPages_def freshData_def)
  obtain cs2 w2 r2 where lp:
    "crawlLoop fuel e rootUrl source maxPages batchSize (crawlInit rootUrl) w1 = (cs2, w2, r2)"
    by (cases "crawlLoop fuel e rootUrl source maxPages batchSize (crawlInit rootUrl) w1")
  have r2: "r2 \<noteq> Raised msg"
    using crawlLoop_nofault [OF nf html inv1, of fuel batchSize msg] lp by simp
  show ?thesis
  proof (cases "r2 = Done")
    case False
    with up lp r2 show ?thesis
      by (auto simp add: scrapeAndSaveSite_def scrapeAndSaveSiteState_def split: outcome.splits)
  next
    case True
    with crawlLoop_inv [OF inv1 lp] obtain ps where "stagedPages source w2 = Some ps"
      by (auto simp add: crawlInv_def)
    from saveBatch_nofault [OF nf this, of "existingAtEnd rootUrl" rootUrl cs2] True up lp
    show ?thesis
      by (simp add: scrapeAndSaveSite_def scrapeAndSaveSiteState_def finalFlush_def)
  qed
qed

lemma crawlLoop_empty:
  "queue cs = [] \<Longrightarrow> crawlLoop n e rootUrl source maxPages batchSize cs w = (cs, w, Done)"
  by (cases n) simp_all

lemma scrapeAndSaveSite_no_fuel:
  assumes "dbFault e (ticks w) = None" and "0 < maxPages"
  shows "snd (scrapeAndSaveSite 0 e rootUrl source maxPages batchSize w) = OutOfFuel"
  using assms
  by (simp add: scrapeAndSaveSite_def scrapeAndSaveSiteState_def findOneAndUpdate_def crawlInit_def)

lemma scrapeAndSaveSite_root_down:
  assumes down: "\<forall>t. \<exists>x. httpGet e t rootUrl = Failure x \<and> (isHangup x \<or> isNetwork x)"
    and ok: "dbFault e (ticks w) = None" and fuel: "0 < fuel"
  shows "snd (scrapeAndSaveSite fuel e rootUrl source maxPages batchSize w) = Done
       \<and> store (fst (scrapeAndSaveSite fuel e rootUrl source maxPages batchSize w)) source
           = Some \<lparr>content = SiteJson (freshData rootUrl), scrapedAt = clock e (ticks w)\<rparr>"
proof -
  obtain n where n: "fuel = Suc n"
    using fuel by (cases fuel) auto
  define w1 where "w1 = fst (findOneAndUpdate e source (SiteJson (freshData rootUrl)) w)"
  have up: "findOneAndUpdate e source (SiteJson (freshData rootUrl)) w = (w1, Done)"
    using ok by (simp add: w1_def findOneAndUpdate_def)
  have st1: "store w1 source = Some \<lparr>content = SiteJson (freshData rootUrl), scrapedAt = clock e (ticks w)\<rparr>"
    using ok by (simp add: w1_def findOneAndUpdate_def tick_def)
  define w2 where "w2 = w1\<lparr>ticks := ticks w1 + 3, fetchLog := fetchLog w1 @ [rootUrl, rootUrl, rootUrl]\<rparr>"
  define cs1 where "cs1 = (crawlInit rootUrl)\<lparr>queue := [], visitedUrls := {rootUrl}\<rparr>"
  have step: "crawlStep e rootUrl source maxPages batchSize (crawlInit rootUrl) w1 = (cs1, w2, Done)"
    using fetchAttempts_transient [OF down, of w1]
    by (simp add: crawlStep_def crawlInit_def cs1_def w2_def)
  have "crawlLoop n e rootUrl source maxPages batchSize cs1 w2 = (cs1, w2, Done)"
    by (rule crawlLoop_empty) (simp add: cs1_def)
  with step have loop: "crawlLoop (Suc n) e rootUrl source maxPages batchSize (crawlInit rootUrl) w1
                = (if 0 < maxPages then (cs1, w2, Done) else (crawlInit rootUrl, w1, Done))"
    by (simp add: crawlInit_def)
  have "store w2 = store w1"
    by (simp add: w2_def)
  with up loop st1 show ?thesis
    by (simp add: scrapeAndSaveSite_def scrapeAndSaveSiteState_def finalFlush_def n cs1_def
        crawlInit_def)
qed

lemma scrapeAndSaveSite_root_down_done:
  assumes down: "\<forall>t. \<exists>x. httpGet e t rootUrl = Failure x \<and> (isHangup x \<or> isNetwork x)"
    and run: "scrapeAndSaveSite fuel e rootUrl source maxPages batchSize w = (w', Done)"
    and pages: "0 < maxPages"
  shows "store w' source
           = Some \<lparr>content = SiteJson (freshData rootUrl), scrapedAt = clock e (ticks w)\<rparr>"
proof -
  have ok: "dbFault e (ticks w) = None"
  proof (cases "dbFault e (ticks w)")
    case (Some msg)
    from scrapeAndSaveSiteState_not_started [OF this, of fuel rootUrl source maxPages batchSize] run
    show ?thesis by (simp add: scrapeAndSaveSite_def)
  qed simp
  have fuel: "0 < fuel"
  proof (rule ccontr)
    assume "\<not> 0 < fuel"
    then have "fuel = 0" by simp
    with scrapeAndSaveSite_no_fuel [OF ok pages, of rootUrl source batchSize] run
    show False by simp
  qed
  from scrapeAndSaveSite_root_down [OF down ok fuel, of source maxPages batchSize] run
  show ?thesis by simp
qed

lemma copyToProduction_done:
  assumes "copyToProduction e k staging w = (w', Done)"
  shows "store w' k'
           = (if k' = k
              then (case staging of
                      None \<Rightarrow> store w k'
                    | Some d \<Rightarrow> Some \<lparr>content = content d, scrapedAt = clock e (ticks w)\<rparr>)
              else store w k')"
  using assms
  by (auto simp add: copyToProduction_def findOneAndUpdate_def tick_def split: option.splits)

lemma swapCallback_done:
  assumes fin: "snd (swapCallback e w) = Done"
    and hs: "store w ''handbook_staging'' = Some dh \<or> k \<noteq> ''handbook''"
    and ds: "store w ''direction_staging'' = Some dd \<or> k \<noteq> ''direction''"
    and k: "k = ''handbook'' \<or> k = ''direction''"
  shows "map_option content (store (fst (swapCallback e w)) k)
           = (if k = ''handbook'' then Some (content dh) else Some (content dd))"
proof -
  have f0: "dbFault e (ticks w) = None"
  proof (rule ccontr)
    assume "dbFault e (ticks w) \<noteq> None"
    then obtain msg where "dbFault e (ticks w) = Some msg" by auto
    then have "swapCallback e w = (tick w, Raised msg)"
      by (simp add: swapCallback_def findOne_def)
    with fin show False by simp
  qed
  then have f1: "findOne e ''handbook_staging'' w = (tick w, Inr (store w ''handbook_staging''))"
    by (simp add: findOne_def)
  have g0: "dbFault e (ticks (tick w)) = None"
  proof (rule ccontr)
    assume "dbFault e (ticks (tick w)) \<noteq> None"
    then obtain msg where "dbFault e (ticks (tick w)) = Some msg" by auto
    then have "findOne e ''direction_staging'' (tick w) = (tick (tick w), Inl msg)"
      by (simp add: findOne_def)
    then have "swapCallback e w = (tick (tick w), Raised msg)"
      by (simp add: swapCallback_def f1)
    with fin show False by simp
  qed
  define w2 where "w2 = tick (tick w)"
  have st2: "store w2 = store w"
    by (simp add: w2_def tick_def)
  have f2: "findOne e ''direction_staging'' (tick w) = (w2, Inr (store w ''direction_staging''))"
    using g0 by (simp add: findOne_def w2_def tick_def)
  obtain w3 r3
    where c1: "copyToProduction e ''handbook'' (store w ''handbook_staging'') w2 = (w3, r3)"
    by (cases "copyToProduction e ''handbook'' (store w ''handbook_staging'') w2")
  obtain w4 r4
    where c2: "copyToProduction e ''direction'' (store w ''direction_staging'') w3 = (w4, r4)"
    by (cases "copyToProduction e ''direction'' (store w ''direction_staging'') w3")
  have r3: "r3 = Done"
    using fin by (cases r3) (simp_all add: swapCallback_def f1 f2 c1)
  have r4: "r4 = Done"
    using fin r3 by (cases r4) (simp_all add: swapCallback_def f1 f2 c1 c2)
  have res: "swapCallback e w = deleteMany e stagingKeys w4"
    by (simp add: swapCallback_def f1 f2 c1 c2 r3 r4)
  have s3: "store w3 k
      = (if k = ''handbook''
         then (case store w ''handbook_staging'' of
                 None \<Rightarrow> store w2 k
               | Some d \<Rightarrow> Some \<lparr>content = content d, scrapedAt = clock e (ticks w2)\<rparr>)
         else store w2 k)"
    by (rule copyToProduction_done [OF c1 [unfolded r3]])
  have s4: "store w4 k
      = (if k = ''direction''
         then (case store w ''direction_staging'' of
                 None \<Rightarrow> store w3 k
               | Some d \<Rightarrow> Some \<lparr>content = content d, scrapedAt = clock e (ticks w3)\<rparr>)
         else store w3 k)"
    by (rule copyToProduction_done [OF c2 [unfolded r4]])
  have "store (fst (swapCallback e w)) k = store w4 k"
    using k by (auto simp add: res deleteMany_store stagingKeys_def)
  moreover have "map_option content (store w4 k)
               = (if k = ''handbook'' then Some (content dh) else Some (content dd))"
  proof (cases "k = ''handbook''")
    case True
    with hs have h: "store w ''handbook_staging'' = Some dh" by simp
    have "store w4 k = store w3 k"
      unfolding s4 using True by simp
    also have "store w3 k = Some \<lparr>content = content dh, scrapedAt = clock e (ticks w2)\<rparr>"
      unfolding s3 using True h by simp
    finally show ?thesis using True by simp
  next
    case False
    with k have kd: "k = ''direction''" by simp
    with ds have h: "store w ''direction_staging'' = Some dd" by simp
    have "store w4 k = Some \<lparr>content = content dd, scrapedAt = clock e (ticks w3)\<rparr>"
      unfolding s4 using kd h by simp
    then show ?thesis using kd by simp
  qed
  ultimately show ?thesis by simp
qed

lemma withTransaction_done:
  assumes "snd (withTransaction e w) = Done"
    and "store w ''handbook_staging'' = Some dh \<or> k \<noteq> ''handbook''"
    and "store w ''direction_staging'' = Some dd \<or> k \<noteq> ''direction''"
    and "k = ''handbook'' \<or> k = ''direction''"
  shows "map_option content (store (fst (withTransaction e w)) k)
           = (if k = ''handbook'' then Some (content dh) else Some (content dd))"
proof -
  obtain w1 r1 where sc: "swapCallback e w = (w1, r1)"
    by (cases "swapCallback e w")
  have r1: "r1 = Done"
    using assms(1) sc by (cases r1) (simp_all add: withTransaction_def)
  have "dbFault e (ticks w1) = None"
    using assms(1) sc r1 by (cases "dbFault e (ticks w1)") (simp_all add: withTransaction_def)
  then have eq: "store (fst (withTransaction e w)) = store w1"
    using sc r1 by (simp add: withTransaction_def tick_def)
  have scd: "snd (swapCallback e w) = Done"
    using sc r1 by simp
  from swapCallback_done [OF scd assms(2,3,4)] sc
  have "map_option content (store w1 k)
           = (if k = ''handbook'' then Some (content dh) else Some (content dd))"
    by simp
  with eq show ?thesis by simp
qed

lemma swapCallback_nofault:
  assumes nf: "\<forall>t. dbFault e t = None"
  shows "snd (swapCallback e w) = Done"
proof -
  have cp: "snd (copyToProduction e k staging w') = Done" for k staging w'
    using nf by (simp add: copyToProduction_def findOneAndUpdate_def split: option.splits)
  have dm: "snd (deleteMany e ks w') = Done" for ks w'
    using nf by (simp add: deleteMany_def)
  have fo: "snd (findOne e k w') = Inr (store w' k)" for k w'
    using nf by (simp add: findOne_def)
  show ?thesis
    by (simp add: swapCallback_def split_beta cp dm fo)
qed

lemma withTransaction_nofault:
  "\<forall>t. dbFault e t = None \<Longrightarrow> snd (withTransaction e w) = Done"
  by (simp add: withTransaction_def split_beta swapCallback_nofault)

lemma scrapeGitLabData_done:
  assumes "snd (scrapeGitLabData fuel e w) = Done"
  shows "\<exists>wa wb. scrapeAndSaveSite fuel e handbookUrl ''handbook_staging'' 50 10 w = (wa, Done)
           \<and> scrapeAndSaveSite fuel e directionUrl ''direction_staging'' 50 10 wa = (wb, Done)
           \<and> snd (withTransaction e (fst (startSession e wb))) = Done
           \<and> fst (scrapeGitLabData fuel e w) = fst (withTransaction e (fst (startSession e wb)))"
proof -
  obtain wa ra where c1: "scrapeAndSaveSite fuel e handbookUrl ''handbook_staging'' 50 10 w = (wa, ra)"
    by (cases "scrapeAndSaveSite fuel e handbookUrl ''handbook_staging'' 50 10 w")
  obtain wb rb where c2: "scrapeAndSaveSite fuel e directionUrl ''direction_staging'' 50 10 wa = (wb, rb)"
    by (cases "scrapeAndSaveSite fuel e directionUrl ''direction_staging'' 50 10 wa")
  obtain wc rc where ss: "startSession e wb = (wc, rc)"
    by (cases "startSession e wb")
  have try_done: "snd (scrapeGitLabDataTry fuel e w) = Done"
    and same: "fst (scrapeGitLabData fuel e w) = fst (scrapeGitLabDataTry fuel e w)"
    using assms by (auto simp add: scrapeGitLabData_def split_beta split: outcome.splits)
  have ra: "ra = Done"
    using try_done c1 by (cases ra) (simp_all add: scrapeGitLabDataTry_def)
  have rb: "rb = Done"
    using try_done c1 c2 ra by (cases rb) (simp_all add: scrapeGitLabDataTry_def)
  have rc: "rc = Done"
    using try_done c1 c2 ss ra rb by (cases rc) (simp_all add: scrapeGitLabDataTry_def)
  have "scrapeGitLabDataTry fuel e w = withTransaction e wc"
    using c1 c2 ss ra rb rc by (simp add: scrapeGitLabDataTry_def)
  with try_done same c1 c2 ss ra rb show ?thesis by simp
qed

lemma scrapeGitLabData_nofault:
  assumes nf: "\<forall>t. dbFault e t = None"
    and c1: "scrapeAndSaveSite fuel e handbookUrl ''handbook_staging'' 50 10 w = (wa, Done)"
    and c2: "scrapeAndSaveSite fuel e directionUrl ''direction_staging'' 50 10 wa = (wb, Done)"
  shows "snd (scrapeGitLabData fuel e w) = Done"
proof -
  have ss: "snd (startSession e wb) = Done"
    using nf by (simp add: startSession_def)
  have "scrapeGitLabDataTry fuel e w = withTransaction e (fst (startSession e wb))"
    using c1 c2 ss by (simp add: scrapeGitLabDataTry_def split_beta)
  with withTransaction_nofault [OF nf, of "fst (startSession e wb)"] show ?thesis
    by (simp add: scrapeGitLabData_def split_beta)
qed

lemma scrapeGitLabData_returned:
  assumes nf: "\<forall>t. dbFault e t = None"
    and html: "\<forall>t u msg. httpGet e t u \<noteq> Response (NotHtml msg)"
    and ret: "snd (scrapeGitLabData fuel e w) \<noteq> OutOfFuel"
  shows "snd (scrapeGitLabData fuel e w) = Done"
proof -
  obtain wa ra where c1: "scrapeAndSaveSite fuel e handbookUrl ''handbook_staging'' 50 10 w = (wa, ra)"
    by (cases "scrapeAndSaveSite fuel e handbookUrl ''handbook_staging'' 50 10 w")
  obtain wb rb where c2: "scrapeAndSaveSite fuel e directionUrl ''direction_staging'' 50 10 wa = (wb, rb)"
    by (cases "scrapeAndSaveSite fuel e directionUrl ''direction_staging'' 50 10 wa")
  have ra: "ra = Done"
  proof (cases ra)
    case (Raised msg)
    with scrapeAndSaveSite_nofault [OF nf html, of fuel handbookUrl "''handbook_staging''" 50 10 w msg] c1
    show ?thesis by simp
  next
    case OutOfFuel
    with c1 ret show ?thesis
      by (simp add: scrapeGitLabData_def scrapeGitLabDataTry_def)
  qed simp
  have rb: "rb = Done"
  proof (cases rb)
    case (Raised msg)
    with scrapeAndSaveSite_nofault [OF nf html, of fuel directionUrl "''direction_staging''" 50 10 wa msg] c2
    show ?thesis by simp
  next
    case OutOfFuel
    with c1 c2 ra ret show ?thesis
      by (simp add: scrapeGitLabData_def scrapeGitLabDataTry_def)
  qed simp
  from scrapeGitLabData_nofault [OF nf] c1 c2 ra rb show ?thesis by simp
qed

text \<open>
  A refresh can fail with a store that works: the root of the handbook cannot be reached,
  the root of the other source answers with a body that is no HTML. The error of
  \<^verbatim>\<open>cheerio.load\<close> ends the refresh, the production record is what it was, and the
  message is recorded.
\<close>

lemma extraction_error_fails_refresh:
  "snd (backgroundRefresh 1 (envNotHtml msg) world0)
     = Some \<lparr>success = False, message = ''Refresh failed: '' @ msg\<rparr>
   \<and> store (fst (backgroundRefresh 1 (envNotHtml msg) world0)) ''handbook''
       = store world0 ''handbook''
   \<and> lastRefreshError (refreshStatus (fst (backgroundRefresh 1 (envNotHtml msg) world0)))
       = Some msg"
  by (simp add: world0_def envNotHtml_def connReset_def refresh_eval)

text \<open>
  C2, as the code has it. Take a refresh in which every fetch of the root URL of one source
  throws a connection reset (\<^verbatim>\<open>ECONNRESET\<close>). The failure of the root is the failure of one page
  and no error of the refresh: the crawl of that source stages a snapshot with no pages.
  So, whenever the refresh returns success, the production record of that source holds the
  empty snapshot, whatever it held before, and \<^verbatim>\<open>lastRefreshError\<close> is null. The refresh
  that returns does return success when no store operation fails and no response makes the
  extraction throw; and with a store that does not fail it returns success, for any fuel
  above zero, when the roots of both sources fail in this way. After a refresh that
  returns, however it ends, \<^verbatim>\<open>isRefreshing\<close> is false.
\<close>

theorem unreachable_root_refresh:
  assumes idle: "\<not> isRefreshing (refreshStatus w)"
    and src: "(k, rootUrl) = (''handbook'', handbookUrl) \<or> (k, rootUrl) = (''direction'', directionUrl)"
    and reset: "\<forall>t. \<exists>x. httpGet e t rootUrl = Failure x \<and> err_code x = Some ''ECONNRESET''"
    and run: "backgroundRefresh fuel e w = (w', result)"
  shows "(result \<noteq> None \<longrightarrow> \<not> isRefreshing (refreshStatus w'))
       \<and> (result = Some \<lparr>success = True, message = ''Refresh completed successfully''\<rparr> \<longrightarrow>
            map_option content (store w' k) = Some (SiteJson (freshData rootUrl))
          \<and> lastRefreshError (refreshStatus w') = None)
       \<and> ((\<forall>t. dbFault e t = None) \<and> (\<forall>t u msg. httpGet e t u \<noteq> Response (NotHtml msg))
          \<and> result \<noteq> None \<longrightarrow>
            result = Some \<lparr>success = True, message = ''Refresh completed successfully''\<rparr>)
       \<and> ((\<forall>t. dbFault e t = None)
          \<and> (\<forall>t. \<exists>x. httpGet e t handbookUrl = Failure x \<and> err_code x = Some ''ECONNRESET'')
          \<and> (\<forall>t. \<exists>x. httpGet e t directionUrl = Failure x \<and> err_code x = Some ''ECONNRESET'')
          \<and> 0 < fuel \<longrightarrow>
            result = Some \<lparr>success = True, message = ''Refresh completed successfully''\<rparr>)"
proof -
  have retried: "\<forall>t. \<exists>x. httpGet e t u = Failure x \<and> (isHangup x \<or> isNetwork x)"
    if "\<forall>t. \<exists>x. httpGet e t u = Failure x \<and> err_code x = Some ''ECONNRESET''" for u
    using that by (fastforce simp add: isHangup_def)
  have down: "\<forall>t. \<exists>x. httpGet e t rootUrl = Failure x \<and> (isHangup x \<or> isNetwork x)"
    using reset by (rule retried)
  define w0 where "w0 = w\<lparr>refreshStatus :=
      \<lparr>isRefreshing = True, lastRefreshAttempt = Some (clock e (ticks w)),
       lastRefreshError = None, startTime = Some (clock e (ticks w))\<rparr>\<rparr>"
  define w1 where "w1 = fst (scrapeGitLabData fuel e w0)"
  define r1 where "r1 = snd (scrapeGitLabData fuel e w0)"
  have sg: "scrapeGitLabData fuel e w0 = (w1, r1)"
    by (simp add: w1_def r1_def)
  have status: "refreshStatus w1 = refreshStatus w0"
    by (simp add: w1_def scrapeGitLabData_status)
  have done_iff: "r1 = Done
      \<longleftrightarrow> result = Some \<lparr>success = True, message = ''Refresh completed successfully''\<rparr>"
    using run idle sg by (cases r1) (auto simp add: backgroundRefresh_def w0_def)
  have returned_iff: "r1 \<noteq> OutOfFuel \<longleftrightarrow> result \<noteq> None"
    using run idle sg by (cases r1) (auto simp add: backgroundRefresh_def w0_def)
  have p1: "result \<noteq> None \<longrightarrow> \<not> isRefreshing (refreshStatus w')"
    using run idle sg by (cases r1) (auto simp add: backgroundRefresh_def w0_def)
  have p2: "map_option content (store w' k) = Some (SiteJson (freshData rootUrl))
          \<and> lastRefreshError (refreshStatus w') = None"
    if succ: "result = Some \<lparr>success = True, message = ''Refresh completed successfully''\<rparr>"
  proof -
    have r1: "r1 = Done" using succ done_iff by simp
    have w': "w' = w1\<lparr>refreshStatus := (refreshStatus w1)\<lparr>isRefreshing := False\<rparr>\<rparr>"
      using run idle sg r1 by (simp add: backgroundRefresh_def w0_def)
    from scrapeGitLabData_done [of fuel e w0] sg r1 obtain wa wb
      where c1: "scrapeAndSaveSite fuel e handbookUrl ''handbook_staging'' 50 10 w0 = (wa, Done)"
        and c2: "scrapeAndSaveSite fuel e directionUrl ''direction_staging'' 50 10 wa = (wb, Done)"
        and tx: "snd (withTransaction e (fst (startSession e wb))) = Done"
        and w1: "w1 = fst (withTransaction e (fst (startSession e wb)))"
      by auto
    have ss: "store (fst (startSession e wb)) = store wb"
      by (rule startSession_store)
    have "map_option content (store w1 k) = Some (SiteJson (freshData rootUrl))"
      using src
    proof
      assume "(k, rootUrl) = (''handbook'', handbookUrl)"
      then have k: "k = ''handbook''" "rootUrl = handbookUrl" by simp_all
      have "store wa ''handbook_staging''
              = Some \<lparr>content = SiteJson (freshData handbookUrl), scrapedAt = clock e (ticks w0)\<rparr>"
        using scrapeAndSaveSite_root_down_done [OF down [unfolded k] c1] by simp
      moreover have "store wb ''handbook_staging'' = store wa ''handbook_staging''"
        using scrapeAndSaveSite_frame [of "''handbook_staging''" "''direction_staging''" fuel e
            directionUrl 50 10 wa] c2
        by simp
      ultimately have "store (fst (startSession e wb)) ''handbook_staging''
              = Some \<lparr>content = SiteJson (freshData handbookUrl), scrapedAt = clock e (ticks w0)\<rparr>"
        using ss by simp
      from withTransaction_done [OF tx, of _ "''handbook''"] this show ?thesis
        by (simp add: k w1)
    next
      assume "(k, rootUrl) = (''direction'', directionUrl)"
      then have k: "k = ''direction''" "rootUrl = directionUrl" by simp_all
      have "store wb ''direction_staging''
              = Some \<lparr>content = SiteJson (freshData directionUrl), scrapedAt = clock e (ticks wa)\<rparr>"
        using scrapeAndSaveSite_root_down_done [OF down [unfolded k] c2] by simp
      then have "store (fst (startSession e wb)) ''direction_staging''
              = Some \<lparr>content = SiteJson (freshData directionUrl), scrapedAt = clock e (ticks wa)\<rparr>"
        using ss by simp
      from withTransaction_done [OF tx, of _ "''direction''"] this show ?thesis
        by (simp add: k w1)
    qed
    with w' status show ?thesis by (simp add: w0_def)
  qed
  have p3: "result = Some \<lparr>success = True, message = ''Refresh completed successfully''\<rparr>"
    if "(\<forall>t. dbFault e t = None) \<and> (\<forall>t u msg. httpGet e t u \<noteq> Response (NotHtml msg))
          \<and> result \<noteq> None"
  proof -
    from that returned_iff have "r1 \<noteq> OutOfFuel" by simp
    with scrapeGitLabData_returned [of e fuel w0] that sg have "r1 = Done" by simp
    with done_iff show ?thesis by simp
  qed
  have p4: "result = Some \<lparr>success = True, message = ''Refresh completed successfully''\<rparr>"
    if a: "(\<forall>t. dbFault e t = None)
          \<and> (\<forall>t. \<exists>x. httpGet e t handbookUrl = Failure x \<and> err_code x = Some ''ECONNRESET'')
          \<and> (\<forall>t. \<exists>x. httpGet e t directionUrl = Failure x \<and> err_code x = Some ''ECONNRESET'')
          \<and> 0 < fuel"
  proof -
    define wa where "wa = fst (scrapeAndSaveSite fuel e handbookUrl ''handbook_staging'' 50 10 w0)"
    define wb where "wb = fst (scrapeAndSaveSite fuel e directionUrl ''direction_staging'' 50 10 wa)"
    have c1: "scrapeAndSaveSite fuel e handbookUrl ''handbook_staging'' 50 10 w0 = (wa, Done)"
      using scrapeAndSaveSite_root_down [OF retried, of handbookUrl w0 fuel "''handbook_staging''" 50 10] a
      by (simp add: wa_def prod_eq_iff)
    have c2: "scrapeAndSaveSite fuel e directionUrl ''direction_staging'' 50 10 wa = (wb, Done)"
      using scrapeAndSaveSite_root_down [OF retried, of directionUrl wa fuel "''direction_staging''" 50 10] a
      by (simp add: wb_def prod_eq_iff)
    from scrapeGitLabData_nofault [OF _ c1 c2] a sg have "r1 = Done" by simp
    with done_iff show ?thesis by simp
  qed
  from p1 p2 p3 p4 show ?thesis by blast
qed

text \<open>
  C2 as stated fails: every fetch is reset, each root is tried three times, the store
  works. The \<^verbatim>\<open>handbook\<close> record held one page before the refresh and holds none after
  it, and no error is recorded.
\<close>

theorem unreachable_root_counterexample:
  "fetchLog (fst (backgroundRefresh 1 envDown world0))
       = [handbookUrl, handbookUrl, handbookUrl, directionUrl, directionUrl, directionUrl]
   \<and> store world0 ''handbook''
       = Some \<lparr>content = SiteJson \<lparr>sd_title = [], sd_url = handbookUrl, pages = [oldPage]\<rparr>,
               scrapedAt = 7\<rparr>
   \<and> store (fst (backgroundRefresh 1 envDown world0)) ''handbook''
       = Some \<lparr>content = SiteJson \<lparr>sd_title = [], sd_url = handbookUrl, pages = []\<rparr>,
               scrapedAt = 111\<rparr>
   \<and> lastRefreshError (refreshStatus (fst (backgroundRefresh 1 envDown world0))) = None"
  by (simp add: world0_def envDown_def connReset_def refresh_eval)

text \<open>
  The amended C2 at the same refresh.
\<close>

theorem unreachable_root_refresh_witness:
  "\<not> isRefreshing (refreshStatus world0)
   \<and> snd (backgroundRefresh 1 envDown world0)
       = Some \<lparr>success = True, message = ''Refresh completed successfully''\<rparr>
   \<and> map_option content (store (fst (backgroundRefresh 1 envDown world0)) ''handbook'')
       = Some (SiteJson (freshData handbookUrl))
   \<and> lastRefreshError (refreshStatus (fst (backgroundRefresh 1 envDown world0))) = None
   \<and> \<not> isRefreshing (refreshStatus (fst (backgroundRefresh 1 envDown world0)))"
proof -
  have nf: "\<forall>t. dbFault envDown t = None"
    by (simp add: envDown_def)
  have idle: "\<not> isRefreshing (refreshStatus world0)"
    by (simp add: world0_def)
  have down: "\<forall>t. \<exists>x. httpGet envDown t u = Failure x \<and> err_code x = Some ''ECONNRESET''" for u
    by (simp add: envDown_def connReset_def)
  have src: "(''handbook'', handbookUrl) = (''handbook'', handbookUrl)
      \<or> (''handbook'', handbookUrl) = (''direction'', directionUrl)"
    by simp
  have run: "backgroundRefresh 1 envDown world0
      = (fst (backgroundRefresh 1 envDown world0), snd (backgroundRefresh 1 envDown world0))"
    by simp
  have fuel: "0 < (1::nat)"
    by simp
  note th = unreachable_root_refresh [OF idle src down run]
  from th nf down fuel
  have succ: "snd (backgroundRefresh 1 envDown world0)
       = Some \<lparr>success = True, message = ''Refresh completed successfully''\<rparr>"
    by blast
  with th
  have "map_option content (store (fst (backgroundRefresh 1 envDown world0)) ''handbook'')
       = Some (SiteJson (freshData handbookUrl))
     \<and> lastRefreshError (refreshStatus (fst (backgroundRefresh 1 envDown world0))) = None"
    by blast
  moreover from th succ
  have "\<not> isRefreshing (refreshStatus (fst (backgroundRefresh 1 envDown world0)))"
    by (metis option.distinct(1))
  ultimately show ?thesis
    using idle succ by blast
qed

end
